theory Spec2Isabelle
  imports Complex_Main
begin

section \<open>Bulk discount pipeline: data model\<close>

text \<open>
  The embedding follows \<^verbatim>\<open>app/routes/app.bulk-discount.jsx\<close> (the \<^verbatim>\<open>action\<close> handler)
  and the table definitions of the migration (\<^verbatim>\<open>Discount\<close>, \<^verbatim>\<open>DiscountSet\<close>).
  Row identifiers are opaque text keys generated by the store; they are modelled by
  natural numbers drawn from a counter kept in the database state. The timestamp
  columns are not read by any modelled action and are left out.
\<close>

type_synonym ident = nat

datatype DiscountStatus = PENDING | CREATED | FAILED

record Discount =
  ident :: ident
  shop :: string
  shopifyId :: "string option"
  code :: string
  masterDiscountId :: string
  discountSetId :: "ident option"
  status :: DiscountStatus
  errorMessage :: "string option"

record DiscountSet =
  set_ident :: ident
  set_name :: string
  set_shop :: string
  set_masterDiscountId :: string

record database =
  discountSets :: "DiscountSet list"
  discounts :: "Discount list"
  nextId :: ident

text \<open>
  A JavaScript call that may throw returns a sum: \<open>Inl m\<close> is an exception whose
  \<^verbatim>\<open>message\<close> is \<open>m\<close> (the empty string also stands for a thrown object without a
  message), \<open>Inr v\<close> is the value. The messages of the engine's own type errors are
  written without their quotation marks.
\<close>

type_synonym 'a thrown = "string + 'a"

text \<open>
  What the remote mutation throws is caught by the \<^verbatim>\<open>catch\<close> block of the processing loop,
  which reads \<^verbatim>\<open>error.message\<close> of the thrown value itself. For that call the thrown value
  is kept in full: \<open>Nullish\<close> is a thrown \<^verbatim>\<open>null\<close> or \<^verbatim>\<open>undefined\<close>, whose message
  cannot be read, and \<open>Thrown m\<close> is any other value, \<open>m\<close> being what reading its message
  gives (empty when it has none). The exceptions of the store and of the engine and the
  exceptions of the query, which reach the handler's outer \<^verbatim>\<open>catch\<close>, are error objects,
  given by their message.
\<close>

datatype thrown_value = Nullish | Thrown string

definition or_default :: "string \<Rightarrow> string \<Rightarrow> string" where
  \<comment> \<open>\<^verbatim>\<open>m || d\<close> on strings: the empty string is falsy.\<close>
  "or_default m d = (if m = [] then d else m)"

subsection \<open>Store operations (the Prisma calls of the handler)\<close>

definition discountSet_findUnique :: "ident \<Rightarrow> database \<Rightarrow> DiscountSet option" where
  "discountSet_findUnique i db = find (\<lambda>s. set_ident s = i) (discountSets db)"

definition discount_findUnique :: "ident \<Rightarrow> database \<Rightarrow> Discount option" where
  "discount_findUnique i db = find (\<lambda>d. ident d = i) (discounts db)"

definition in_set_with_status :: "ident \<Rightarrow> DiscountStatus \<Rightarrow> Discount \<Rightarrow> bool" where
  \<comment> \<open>the filter \<^verbatim>\<open>where: { discountSetId, status }\<close>\<close>
  "in_set_with_status sid st d = (discountSetId d = Some sid \<and> status d = st)"

definition discount_findMany :: "ident \<Rightarrow> DiscountStatus \<Rightarrow> nat \<Rightarrow> database \<Rightarrow> Discount list" where
  \<comment> \<open>\<^verbatim>\<open>findMany({ where: { discountSetId, status }, take })\<close>, rows in table order\<close>
  "discount_findMany sid st n db = take n (filter (in_set_with_status sid st) (discounts db))"

definition discount_count :: "ident \<Rightarrow> DiscountStatus \<Rightarrow> database \<Rightarrow> nat" where
  "discount_count sid st db = length (filter (in_set_with_status sid st) (discounts db))"

definition discount_update :: "ident \<Rightarrow> (Discount \<Rightarrow> Discount) \<Rightarrow> database \<Rightarrow> database thrown" where
  \<comment> \<open>\<^verbatim>\<open>update({ where: { id }, data })\<close>: throws when no row has the key\<close>
  "discount_update i f db =
     (if i \<in> ident ` set (discounts db)
      then Inr (db\<lparr>discounts := map (\<lambda>d. if ident d = i then f d else d) (discounts db)\<rparr>)
      else Inl ''Record to update not found.'')"

definition discount_updateMany :: "(Discount \<Rightarrow> bool) \<Rightarrow> (Discount \<Rightarrow> Discount) \<Rightarrow> database \<Rightarrow> database" where
  "discount_updateMany p f db = db\<lparr>discounts := map (\<lambda>d. if p d then f d else d) (discounts db)\<rparr>"

definition discountSet_create :: "string \<Rightarrow> string \<Rightarrow> string \<Rightarrow> database \<Rightarrow> DiscountSet \<times> database" where
  "discountSet_create nm sh mid db =
     (let s = \<lparr>set_ident = nextId db, set_name = nm, set_shop = sh, set_masterDiscountId = mid\<rparr>
      in (s, db\<lparr>discountSets := discountSets db @ [s], nextId := Suc (nextId db)\<rparr>))"

definition new_discount :: "string \<Rightarrow> string \<Rightarrow> ident \<Rightarrow> ident \<times> string \<Rightarrow> Discount" where
  \<comment> \<open>one element of the \<^verbatim>\<open>createMany\<close> data: the columns not given are NULL\<close>
  "new_discount sh mid sid ic =
     \<lparr>ident = fst ic, shop = sh, shopifyId = None, code = snd ic, masterDiscountId = mid,
      discountSetId = Some sid, status = PENDING, errorMessage = None\<rparr>"

definition discount_createMany :: "string \<Rightarrow> string \<Rightarrow> ident \<Rightarrow> string list \<Rightarrow> database \<Rightarrow> database thrown" where
  \<comment> \<open>one INSERT statement; the unique index on (shop, code) rejects the whole statement\<close>
  "discount_createMany sh mid sid codes db =
     (if distinct codes \<and> (\<forall>d \<in> set (discounts db). shop d = sh \<longrightarrow> code d \<notin> set codes)
      then Inr (db\<lparr>discounts := discounts db
                     @ map (new_discount sh mid sid) (zip [nextId db ..< nextId db + length codes] codes),
                   nextId := nextId db + length codes\<rparr>)
      else Inl ''Unique constraint failed on the fields: (`shop`,`code`)'')"

section \<open>The remote discount service\<close>

text \<open>
  Results of the \<^verbatim>\<open>getDiscount\<close> query, as the handler reads them. A field selected
  inside an inline fragment is absent (\<open>None\<close>) when the fragment does not apply.
  The \<^verbatim>\<open>products\<close> and \<^verbatim>\<open>collections\<close> connections are flattened to the list of
  their node ids.
\<close>

record Money =
  money_amount :: string
  currencyCode :: string

record DiscountValue =
  percentage :: "rat option"
  amount :: "Money option"

record DiscountItems =
  allItems :: "bool option"
  products :: "string list option"
  collections :: "string list option"

record DiscountCustomerGets =
  cg_value :: DiscountValue
  cg_items :: DiscountItems

record DiscountContext =
  ctx_all :: "string option"
  customers :: "string list option"

datatype DiscountMinimumRequirement =
  DiscountMinimumSubtotal Money | DiscountMinimumQuantity string

record DiscountCodeBasic =
  title :: string
  minimumRequirement :: "DiscountMinimumRequirement option"
  customerGets :: DiscountCustomerGets
  context_of :: DiscountContext
  usageLimit :: "int option"
  appliesOncePerCustomer :: bool
  startsAt :: string
  endsAt :: "string option"

datatype DiscountObject =
  BasicDiscount DiscountCodeBasic
  | OtherDiscount \<comment> \<open>a discount of another type: the fragment selects nothing, \<^verbatim>\<open>{}\<close>\<close>

record GetDiscountBody =
  body_errors :: "string list option" \<comment> \<open>the messages of \<^verbatim>\<open>errors\<close>\<close>
  body_data :: "DiscountObject option option option"
    \<comment> \<open>\<^verbatim>\<open>data\<close>, then \<^verbatim>\<open>discountNode\<close>, then \<^verbatim>\<open>discount\<close>, each possibly null\<close>

definition data_discountNode_discount :: "GetDiscountBody \<Rightarrow> DiscountObject option" where
  \<comment> \<open>\<^verbatim>\<open>masterDiscountData.data?.discountNode?.discount\<close>\<close>
  "data_discountNode_discount b =
     (case body_data b of None \<Rightarrow> None | Some None \<Rightarrow> None | Some (Some d) \<Rightarrow> d)"

text \<open>The input of the \<^verbatim>\<open>discountCodeBasicCreate\<close> mutation built by the handler.\<close>

datatype jsval = JBool bool | JString string

datatype DiscountItemsInput =
  Items_all jsval | Items_products "string list" | Items_collections "string list"

datatype DiscountContextInput =
  Context_all jsval | Context_customers "string list"

datatype DiscountValueInput =
  Value_percentage rat
  | Value_discountAmount string bool \<comment> \<open>\<^verbatim>\<open>amount\<close>, \<^verbatim>\<open>appliesOnEachItem\<close>\<close>

record DiscountCodeBasicInput =
  in_code :: string
  in_title :: string
  in_startsAt :: string
  in_endsAt :: "string option"
  in_context :: DiscountContextInput
  in_value :: DiscountValueInput
  in_items :: DiscountItemsInput
  in_minimumRequirement :: "DiscountMinimumRequirement option"
  in_usageLimit :: "int option"
  in_appliesOncePerCustomer :: bool

record UserError =
  field :: "string list option"
  ue_message :: string

record CreateBody =
  userErrors :: "UserError list option"
    \<comment> \<open>\<^verbatim>\<open>createResult.data?.discountCodeBasicCreate?.userErrors\<close>\<close>
  codeDiscountNode :: "string option"
    \<comment> \<open>\<^verbatim>\<open>createResult.data?.discountCodeBasicCreate?.codeDiscountNode\<close>, by its \<^verbatim>\<open>id\<close>\<close>

text \<open>
  \<^verbatim>\<open>admin.graphql\<close> followed by \<^verbatim>\<open>.json()\<close>: the remote service has a state of its
  own (type \<open>'g\<close>), answers or throws, and moves to a new state.
\<close>

record 'g gateway =
  getDiscount :: "'g \<Rightarrow> string \<Rightarrow> GetDiscountBody thrown \<times> 'g"
  discountCodeBasicCreate :: "'g \<Rightarrow> DiscountCodeBasicInput \<Rightarrow> (thrown_value + CreateBody) \<times> 'g"

section \<open>Template replication\<close>

definition buildItemSelection :: "DiscountCodeBasic \<Rightarrow> DiscountItemsInput" where
  "buildItemSelection masterDiscount =
     (let its = cg_items (customerGets masterDiscount) in
      if allItems its = Some True then Items_all (JString ''ALL'')
      else (case products its of
              Some productIds \<Rightarrow> Items_products productIds
            | None \<Rightarrow>
                (case collections its of
                   Some collectionIds \<Rightarrow> Items_collections collectionIds
                 | None \<Rightarrow> Items_all (JString ''ALL''))))"

definition truthy_string :: "string option \<Rightarrow> bool" where
  "truthy_string s = (case s of None \<Rightarrow> False | Some t \<Rightarrow> t \<noteq> [])"

definition buildCustomerContext :: "DiscountCodeBasic \<Rightarrow> DiscountContextInput" where
  "buildCustomerContext masterDiscount =
     (if truthy_string (ctx_all (context_of masterDiscount)) then Context_all (JString ''ALL'')
      else (case customers (context_of masterDiscount) of
              Some cs \<Rightarrow> Context_customers cs
            | None \<Rightarrow> Context_all (JString ''ALL'')))"

definition valueInput :: "DiscountValue \<Rightarrow> DiscountValueInput thrown" where
  \<comment> \<open>\<^verbatim>\<open>value.percentage ? { percentage } : { discountAmount: { amount: value.amount.amount, .. } }\<close>;
      the number 0 is falsy, and reading \<^verbatim>\<open>.amount\<close> of an absent \<^verbatim>\<open>value.amount\<close> throws\<close>
  "valueInput v =
     (case percentage v of
        Some p \<Rightarrow>
          if p \<noteq> 0 then Inr (Value_percentage p)
          else (case amount v of
                  None \<Rightarrow> Inl ''Cannot read properties of undefined (reading amount)''
                | Some m \<Rightarrow> Inr (Value_discountAmount (money_amount m) False))
      | None \<Rightarrow>
          (case amount v of
             None \<Rightarrow> Inl ''Cannot read properties of undefined (reading amount)''
           | Some m \<Rightarrow> Inr (Value_discountAmount (money_amount m) False)))"

definition discountInput ::
  "DiscountCodeBasic \<Rightarrow> DiscountItemsInput \<Rightarrow> DiscountContextInput \<Rightarrow> Discount
     \<Rightarrow> DiscountCodeBasicInput thrown" where
  "discountInput masterDiscount itemSelection customerContext discountRecord =
     (case valueInput (cg_value (customerGets masterDiscount)) of
        Inl m \<Rightarrow> Inl m
      | Inr v \<Rightarrow>
          Inr \<lparr>in_code = code discountRecord,
               in_title = title masterDiscount,
               in_startsAt = startsAt masterDiscount,
               in_endsAt = endsAt masterDiscount,
               in_context = customerContext,
               in_value = v,
               in_items = itemSelection,
               in_minimumRequirement = minimumRequirement masterDiscount,
               in_usageLimit = usageLimit masterDiscount,
               in_appliesOncePerCustomer = appliesOncePerCustomer masterDiscount\<rparr>)"

section \<open>The actions of the handler\<close>

subsection \<open>Text of the responses\<close>

definition digit_char :: "nat \<Rightarrow> char" where
  "digit_char d = char_of (48 + d)"

function string_of_nat :: "nat \<Rightarrow> string" where
  "string_of_nat n = (if n < 10 then [digit_char n] else string_of_nat (n div 10) @ [digit_char (n mod 10)])"
  by pat_completeness auto
termination
  by (relation "measure id") auto

fun join :: "string \<Rightarrow> string list \<Rightarrow> string" where
  "join sep [] = []"
| "join sep [x] = x"
| "join sep (x # y # ys) = x @ sep @ join sep (y # ys)"

definition format_userError :: "UserError \<Rightarrow> string" where
  \<comment> \<open>the template literal \<^verbatim>\<open>${e.field}: ${e.message}\<close>\<close>
  "format_userError e =
     (case field e of None \<Rightarrow> ''null'' | Some fs \<Rightarrow> join '','' fs) @ '': '' @ ue_message e"

subsection \<open>\<^verbatim>\<open>create_discounts\<close>\<close>

record CreateResponse =
  cr_message :: string
  cr_discountSetId :: ident
  totalCodes :: nat
  cr_needsProcessing :: bool

definition formatMasterDiscountId :: "string \<Rightarrow> string" where
  "formatMasterDiscountId masterDiscountId' =
     (if take 6 masterDiscountId' = ''gid://'' then masterDiscountId'
      else ''gid://shopify/DiscountCodeNode/'' @ masterDiscountId')"

definition create_discounts ::
  "'g gateway \<Rightarrow> string \<Rightarrow> string \<Rightarrow> string \<Rightarrow> string list \<Rightarrow> database \<Rightarrow> 'g
     \<Rightarrow> CreateResponse thrown \<times> database \<times> 'g" where
  "create_discounts gw sessionShop masterDiscountId' discountSetName codes db g =
     (let formattedMasterDiscountId = formatMasterDiscountId masterDiscountId' in
      case getDiscount gw g formattedMasterDiscountId of
        (Inl m, g1) \<Rightarrow> (Inl (or_default m ''An error occurred''), db, g1)
      | (Inr masterDiscountData, g1) \<Rightarrow>
          (case body_errors masterDiscountData of
             Some [] \<Rightarrow> (Inl ''Cannot read properties of undefined (reading message)'', db, g1)
           | Some (e # es) \<Rightarrow>
               (Inl (''GraphQL Error: '' @ e @ ''. Using ID: '' @ formattedMasterDiscountId), db, g1)
           | None \<Rightarrow>
               (case body_data masterDiscountData of
                  None \<Rightarrow> (Inl ''Cannot read properties of undefined (reading discountNode)'', db, g1)
                | Some dat \<Rightarrow>
                    (case data_discountNode_discount masterDiscountData of
                       None \<Rightarrow>
                         (Inl (''Master discount not found with ID: '' @ formattedMasterDiscountId
                               @ ''. Please check if the discount exists.''), db, g1)
                     | Some obj \<Rightarrow>
                         (case discountSet_create discountSetName sessionShop formattedMasterDiscountId db of
                            (discountSet, db1) \<Rightarrow>
                              (case discount_createMany sessionShop formattedMasterDiscountId
                                      (set_ident discountSet) codes db1 of
                                 Inl m \<Rightarrow> (Inl (or_default m ''An error occurred''), db1, g1)
                               | Inr db2 \<Rightarrow>
                                   (Inr \<lparr>cr_message = ''Queued '' @ string_of_nat (length codes)
                                            @ '' discount codes. Processing will begin automatically...'',
                                         cr_discountSetId = set_ident discountSet,
                                         totalCodes = length codes,
                                         cr_needsProcessing = True\<rparr>, db2, g1)))))))"

subsection \<open>\<^verbatim>\<open>process_pending\<close>\<close>

definition BATCH_SIZE :: nat where
  "BATCH_SIZE = 5"

text \<open>
  A returned object \<^verbatim>\<open>{ error }\<close> is \<open>Inl\<close> of its text; a success response (the
  objects with \<^verbatim>\<open>success: true\<close>) is \<open>Inr\<close> of its remaining fields.
\<close>

record ProcessResponse =
  complete :: bool
  pr_message :: string
  processed :: nat
  remaining :: nat

definition mark_failed :: "ident \<Rightarrow> string \<Rightarrow> database \<Rightarrow> database thrown" where
  \<comment> \<open>\<^verbatim>\<open>update({ where: { id }, data: { status: 'FAILED', errorMessage } })\<close>\<close>
  "mark_failed i msg = discount_update i (\<lambda>d. d\<lparr>status := FAILED, errorMessage := Some msg\<rparr>)"

definition mark_created :: "ident \<Rightarrow> string \<Rightarrow> database \<Rightarrow> database thrown" where
  \<comment> \<open>\<^verbatim>\<open>update({ where: { id }, data: { status: 'CREATED', shopifyId } })\<close>\<close>
  "mark_created i rid = discount_update i (\<lambda>d. d\<lparr>status := CREATED, shopifyId := Some rid\<rparr>)"

definition record_result :: "ident \<Rightarrow> CreateBody \<Rightarrow> database \<Rightarrow> database thrown" where
  \<comment> \<open>the three branches on \<^verbatim>\<open>userErrors\<close> and \<^verbatim>\<open>codeDiscountNode\<close>\<close>
  "record_result i createResult db =
     (case userErrors createResult of
        Some (u # us) \<Rightarrow> mark_failed i (join '', '' (map format_userError (u # us))) db
      | _ \<Rightarrow>
          (case codeDiscountNode createResult of
             Some rid \<Rightarrow> mark_created i rid db
           | None \<Rightarrow> mark_failed i ''Unexpected API response'' db))"

definition try_item ::
  "'g gateway \<Rightarrow> DiscountCodeBasic \<Rightarrow> DiscountItemsInput \<Rightarrow> DiscountContextInput \<Rightarrow> Discount
     \<Rightarrow> database \<Rightarrow> 'g \<Rightarrow> (thrown_value + database) \<times> 'g" where
  \<comment> \<open>the body of the \<^verbatim>\<open>try\<close> block for one claimed record; a type error and a failed
      update are error objects\<close>
  "try_item gw masterDiscount itemSelection customerContext discountRecord db g =
     (case discountInput masterDiscount itemSelection customerContext discountRecord of
        Inl m \<Rightarrow> (Inl (Thrown m), g)
      | Inr inp \<Rightarrow>
          (case discountCodeBasicCreate gw g inp of
             (Inl e, g') \<Rightarrow> (Inl e, g')
           | (Inr createResult, g') \<Rightarrow>
               (case record_result (ident discountRecord) createResult db of
                  Inl m \<Rightarrow> (Inl (Thrown m), g')
                | Inr db' \<Rightarrow> (Inr db', g'))))"

definition process_item ::
  "'g gateway \<Rightarrow> DiscountCodeBasic \<Rightarrow> DiscountItemsInput \<Rightarrow> DiscountContextInput \<Rightarrow> Discount
     \<Rightarrow> database \<times> 'g \<times> nat \<Rightarrow> string option \<times> database \<times> 'g \<times> nat" where
  \<comment> \<open>one iteration of the loop: \<open>Some m\<close> is an exception that leaves the loop. The
      \<^verbatim>\<open>catch\<close> block reads \<^verbatim>\<open>error.message\<close> before its update: for a thrown \<^verbatim>\<open>null\<close> or
      \<^verbatim>\<open>undefined\<close> that read raises a type error, nothing is written and the loop is left\<close>
  "process_item gw masterDiscount itemSelection customerContext discountRecord st =
     (case st of (db, g, processedCount) \<Rightarrow>
        (case try_item gw masterDiscount itemSelection customerContext discountRecord db g of
           (Inr db', g') \<Rightarrow> (None, db', g', Suc processedCount)
         | (Inl Nullish, g') \<Rightarrow>
             (Some ''Cannot read properties of null (reading message)'', db, g', processedCount)
         | (Inl (Thrown m), g') \<Rightarrow>
             (case mark_failed (ident discountRecord) (or_default m ''Unknown error'') db of
                Inr db' \<Rightarrow> (None, db', g', Suc processedCount)
              | Inl m' \<Rightarrow> (Some m', db, g', processedCount))))"

fun process_loop ::
  "'g gateway \<Rightarrow> DiscountCodeBasic \<Rightarrow> DiscountItemsInput \<Rightarrow> DiscountContextInput \<Rightarrow> Discount list
     \<Rightarrow> database \<times> 'g \<times> nat \<Rightarrow> string option \<times> database \<times> 'g \<times> nat" where
  "process_loop gw masterDiscount itemSelection customerContext [] st = (None, st)"
| "process_loop gw masterDiscount itemSelection customerContext (discountRecord # rest) st =
     (case process_item gw masterDiscount itemSelection customerContext discountRecord st of
        (Some m, st') \<Rightarrow> (Some m, st')
      | (None, st') \<Rightarrow> process_loop gw masterDiscount itemSelection customerContext rest st')"

definition process_pending ::
  "'g gateway \<Rightarrow> ident \<Rightarrow> database \<Rightarrow> 'g \<Rightarrow> ProcessResponse thrown \<times> database \<times> 'g" where
  "process_pending gw discountSetId' db g =
     (case discountSet_findUnique discountSetId' db of
        None \<Rightarrow> (Inl ''Discount set not found'', db, g)
      | Some discountSet \<Rightarrow>
          (let pendingDiscounts = discount_findMany discountSetId' PENDING BATCH_SIZE db in
           if pendingDiscounts = [] then
             (Inr \<lparr>complete = True,
                   pr_message = ''Processing complete. Created: ''
                      @ string_of_nat (discount_count discountSetId' CREATED db)
                      @ '', Failed: '' @ string_of_nat (discount_count discountSetId' FAILED db),
                   processed = 0,
                   remaining = 0\<rparr>, db, g)
           else
             (case getDiscount gw g (set_masterDiscountId discountSet) of
                (Inl m, g1) \<Rightarrow> (Inl (or_default m ''An error occurred''), db, g1)
              | (Inr masterDiscountData, g1) \<Rightarrow>
                  (case data_discountNode_discount masterDiscountData of
                     None \<Rightarrow> (Inl ''Master discount no longer exists'', db, g1)
                   | Some OtherDiscount \<Rightarrow>
                       (Inl ''Cannot read properties of undefined (reading items)'', db, g1)
                   | Some (BasicDiscount masterDiscount) \<Rightarrow>
                       (case process_loop gw masterDiscount (buildItemSelection masterDiscount)
                               (buildCustomerContext masterDiscount) pendingDiscounts (db, g1, 0) of
                          (Some m, db', g', processedCount) \<Rightarrow>
                            (Inl (or_default m ''An error occurred''), db', g')
                        | (None, db', g', processedCount) \<Rightarrow>
                            (let remainingCount = discount_count discountSetId' PENDING db' in
                             (Inr \<lparr>complete = (remainingCount = 0),
                                   pr_message =
                                     (if remainingCount > 0
                                      then ''Processed '' @ string_of_nat processedCount @ '' discounts. ''
                                           @ string_of_nat remainingCount @ '' remaining...''
                                      else ''Batch complete. Processed '' @ string_of_nat processedCount
                                           @ '' discounts.''),
                                   processed = processedCount,
                                   remaining = remainingCount\<rparr>, db', g')))))))"

subsection \<open>\<^verbatim>\<open>retry_failed\<close>\<close>

record RetryResponse =
  rr_message :: string
  rr_discountSetId :: ident
  rr_needsProcessing :: bool

definition retry_failed :: "ident \<Rightarrow> database \<Rightarrow> RetryResponse \<times> database" where
  "retry_failed discountSetId' db =
     (let db' = discount_updateMany (in_set_with_status discountSetId' FAILED)
                  (\<lambda>d. d\<lparr>status := PENDING, errorMessage := None\<rparr>) db;
          pendingCount = discount_count discountSetId' PENDING db'
      in (\<lparr>rr_message = string_of_nat pendingCount @ '' failed discounts have been queued for retry.'',
           rr_discountSetId = discountSetId',
           rr_needsProcessing = (pendingCount > 0)\<rparr>, db'))"

section \<open>Vocabulary of the properties\<close>

definition primary_key :: "database \<Rightarrow> bool" where
  \<comment> \<open>the constraint \<^verbatim>\<open>Discount_pkey\<close> of the migration\<close>
  "primary_key db = distinct (map ident (discounts db))"

definition status_row_ok :: "Discount \<Rightarrow> bool" where
  "status_row_ok d =
     ((status d = CREATED \<longleftrightarrow> shopifyId d \<noteq> None \<and> errorMessage d = None)
      \<and> (status d = FAILED \<longleftrightarrow> errorMessage d \<noteq> None \<and> shopifyId d = None)
      \<and> (status d = PENDING \<longleftrightarrow> shopifyId d = None \<and> errorMessage d = None))"

definition status_invariant :: "database \<Rightarrow> bool" where
  "status_invariant db = list_all status_row_ok (discounts db)"

definition resolution :: "Discount \<Rightarrow> Discount \<Rightarrow> bool" where
  \<comment> \<open>the two updates a processing attempt writes to a row\<close>
  "resolution d d' =
     ((\<exists>m. d' = d\<lparr>status := FAILED, errorMessage := Some m\<rparr>)
      \<or> (\<exists>rid. d' = d\<lparr>status := CREATED, shopifyId := Some rid\<rparr>))"

definition row_resolved :: "Discount \<Rightarrow> Discount \<Rightarrow> bool" where
  "row_resolved d d' = (d' = d \<or> (status d = PENDING \<and> resolution d d'))"

definition template_unresolved :: "GetDiscountBody thrown \<Rightarrow> bool" where
  \<comment> \<open>submission time: the query throws, reports errors, or finds no discount\<close>
  "template_unresolved r =
     (case r of Inl m \<Rightarrow> True
      | Inr b \<Rightarrow> body_errors b \<noteq> None \<or> data_discountNode_discount b = None)"

definition template_fetch_failed :: "GetDiscountBody thrown \<Rightarrow> bool" where
  \<comment> \<open>processing time: the query throws or finds no discount\<close>
  "template_fetch_failed r =
     (case r of Inl m \<Rightarrow> True | Inr b \<Rightarrow> data_discountNode_discount b = None)"

fun process_many :: "'g gateway \<Rightarrow> ident list \<Rightarrow> database \<Rightarrow> 'g \<Rightarrow> database \<times> 'g" where
  \<comment> \<open>a sequence of \<^verbatim>\<open>process_pending\<close> calls, one per listed set id\<close>
  "process_many gw [] db g = (db, g)"
| "process_many gw (sid # sids) db g =
     (case process_pending gw sid db g of (res, db', g') \<Rightarrow> process_many gw sids db' g')"

definition logged ::
  "'g gateway \<Rightarrow> ('g \<times> (DiscountCodeBasicInput \<times> (thrown_value + CreateBody)) list) gateway" where
  \<comment> \<open>the same remote service, observed: every mutation request is recorded with its answer\<close>
  "logged gw =
     \<lparr>getDiscount = (\<lambda>gl i. case getDiscount gw (fst gl) i of (r, g') \<Rightarrow> (r, (g', snd gl))),
      discountCodeBasicCreate =
        (\<lambda>gl inp. case discountCodeBasicCreate gw (fst gl) inp of
                     (r, g') \<Rightarrow> (r, (g', snd gl @ [(inp, r)])))\<rparr>"

definition claimed_outcome :: "thrown_value + CreateBody \<Rightarrow> Discount \<Rightarrow> Discount" where
  \<comment> \<open>the row expected for a claimed record, given the answer to its request. Nothing is
      expected after a thrown \<^verbatim>\<open>null\<close> or \<^verbatim>\<open>undefined\<close>: the row is shown as it was, and
      no property below is stated for that case\<close>
  "claimed_outcome res r =
     (case res of
        Inl Nullish \<Rightarrow> r
      | Inl (Thrown m) \<Rightarrow>
          r\<lparr>status := FAILED, errorMessage := Some (if m = [] then ''Unknown error'' else m)\<rparr>
      | Inr body \<Rightarrow>
          (case userErrors body of
             Some (u # us) \<Rightarrow>
               r\<lparr>status := FAILED, errorMessage := Some (join '', '' (map format_userError (u # us)))\<rparr>
           | _ \<Rightarrow>
               (case codeDiscountNode body of
                  Some rid \<Rightarrow> r\<lparr>status := CREATED, shopifyId := Some rid\<rparr>
                | None \<Rightarrow> r\<lparr>status := FAILED, errorMessage := Some ''Unexpected API response''\<rparr>)))"

definition requests_of :: "'a \<times> 'b \<times> 'c \<times> ('d \<times> 'e) list \<Rightarrow> 'd list" where
  \<comment> \<open>the mutation requests recorded during a call made through \<open>logged\<close>\<close>
  "requests_of out = map fst (snd (snd (snd out)))"

subsection \<open>Example data\<close>

definition ex_template :: DiscountCodeBasic where
  "ex_template =
     \<lparr>title = ''Welcome'', minimumRequirement = None,
      customerGets = \<lparr>cg_value = \<lparr>percentage = Some 10, amount = None\<rparr>,
                      cg_items = \<lparr>allItems = Some True, products = None, collections = None\<rparr>\<rparr>,
      context_of = \<lparr>ctx_all = Some ''ALL'', customers = None\<rparr>,
      usageLimit = Some 100, appliesOncePerCustomer = False,
      startsAt = ''2025-01-01'', endsAt = None\<rparr>"

definition ex_gateway :: "unit gateway" where
  "ex_gateway =
     \<lparr>getDiscount = (\<lambda>g i. (Inr \<lparr>body_errors = None,
                                  body_data = Some (Some (Some (BasicDiscount ex_template)))\<rparr>, g)),
      discountCodeBasicCreate =
        (\<lambda>g inp. (Inr \<lparr>userErrors = Some [], codeDiscountNode = Some (''n-'' @ in_code inp)\<rparr>, g))\<rparr>"

definition ex_gateway_missing :: "unit gateway" where
  "ex_gateway_missing =
     \<lparr>getDiscount = (\<lambda>g i. (Inr \<lparr>body_errors = None, body_data = Some None\<rparr>, g)),
      discountCodeBasicCreate = (\<lambda>g inp. (Inl (Thrown ''unreachable''), g))\<rparr>"

definition ex_row :: "ident \<Rightarrow> string \<Rightarrow> ident \<Rightarrow> Discount" where
  "ex_row i c sid =
     \<lparr>ident = i, shop = ''s'', shopifyId = None, code = c, masterDiscountId = ''gid://m'',
      discountSetId = Some sid, status = PENDING, errorMessage = None\<rparr>"

definition ex_db :: database where
  "ex_db =
     \<lparr>discountSets =
        [\<lparr>set_ident = 1, set_name = ''Spring'', set_shop = ''s'', set_masterDiscountId = ''gid://m''\<rparr>,
         \<lparr>set_ident = 5, set_name = ''Autumn'', set_shop = ''s'', set_masterDiscountId = ''gid://m''\<rparr>],
      discounts =
        [ex_row 2 ''A'' 1,
         (ex_row 3 ''B'' 1)\<lparr>status := FAILED, errorMessage := Some ''code: taken''\<rparr>,
         (ex_row 4 ''C'' 1)\<lparr>status := CREATED, shopifyId := Some ''n-C''\<rparr>,
         (ex_row 6 ''D'' 5)\<lparr>status := FAILED, errorMessage := Some ''code: taken''\<rparr>,
         ex_row 7 ''E'' 5],
      nextId = 8\<rparr>"

definition empty_db :: database where
  "empty_db = \<lparr>discountSets = [], discounts = [], nextId = 1\<rparr>"

definition twelve_codes :: "string list" where
  "twelve_codes = [''C01'', ''C02'', ''C03'', ''C04'', ''C05'', ''C06'',
                   ''C07'', ''C08'', ''C09'', ''C10'', ''C11'', ''C12'']"

definition ex_submitted :: database where
  \<comment> \<open>the table after submitting twelve codes to an empty store\<close>
  "ex_submitted = fst (snd (create_discounts ex_gateway ''s'' ''7'' ''Spring'' twelve_codes empty_db ()))"

definition silent_error :: string where
  \<comment> \<open>the message of an exception thrown without one\<close>
  "silent_error = []"

definition ex_gateway_silent :: "unit gateway" where
  "ex_gateway_silent =
     \<lparr>getDiscount = (\<lambda>g i. (Inr \<lparr>body_errors = None,
                                  body_data = Some (Some (Some (BasicDiscount ex_template)))\<rparr>, g)),
      discountCodeBasicCreate = (\<lambda>g inp. (Inl (Thrown silent_error), g))\<rparr>"

definition ex_gateway_mixed :: "nat gateway" where
  \<comment> \<open>rejects one code, throws on another, creates the rest; its state counts the requests\<close>
  "ex_gateway_mixed =
     \<lparr>getDiscount = (\<lambda>n i. (Inr \<lparr>body_errors = None,
                                  body_data = Some (Some (Some (BasicDiscount ex_template)))\<rparr>, n)),
      discountCodeBasicCreate =
        (\<lambda>n inp.
           (if in_code inp = ''DUPLICATE1''
            then Inr \<lparr>userErrors = Some [\<lparr>field = Some [''code''], ue_message = ''taken''\<rparr>],
                      codeDiscountNode = None\<rparr>
            else if in_code inp = ''BOOM'' then Inl (Thrown ''network down'')
            else Inr \<lparr>userErrors = Some [], codeDiscountNode = Some (''n-'' @ in_code inp)\<rparr>,
            Suc n))\<rparr>"

definition ex_db_mixed :: database where
  "ex_db_mixed =
     \<lparr>discountSets =
        [\<lparr>set_ident = 1, set_name = ''Spring'', set_shop = ''s'', set_masterDiscountId = ''gid://m''\<rparr>],
      discounts = [ex_row 2 ''DUPLICATE1'' 1, ex_row 3 ''BOOM'' 1, ex_row 4 ''OK1'' 1],
      nextId = 5\<rparr>"

definition ex_gateway_null :: "unit gateway" where
  \<comment> \<open>its mutation throws \<^verbatim>\<open>null\<close>\<close>
  "ex_gateway_null =
     \<lparr>getDiscount = (\<lambda>g i. (Inr \<lparr>body_errors = None,
                                  body_data = Some (Some (Some (BasicDiscount ex_template)))\<rparr>, g)),
      discountCodeBasicCreate = (\<lambda>g inp. (Inl Nullish, g))\<rparr>"

section \<open>Auxiliary lemmas\<close>

subsection \<open>Retry and the processed count\<close>

lemma retry_failed_db:
  "snd (retry_failed sid db) =
     discount_updateMany (in_set_with_status sid FAILED)
       (\<lambda>d. d\<lparr>status := PENDING, errorMessage := None\<rparr>) db"
  by (simp add: retry_failed_def Let_def)

lemma process_item_count:
  "process_item gw t sel c r (db, g, n) = (None, db', g', n') \<Longrightarrow> n' = Suc n"
  unfolding process_item_def by (auto split: prod.splits sum.splits thrown_value.splits)

lemma process_loop_count:
  "process_loop gw t sel c rs (db, g, n) = (None, db', g', n') \<Longrightarrow> n' = n + length rs"
proof (induction rs arbitrary: db g n)
  case Nil
  then show ?case by simp
next
  case (Cons r rs)
  obtain e db1 g1 n1 where step: "process_item gw t sel c r (db, g, n) = (e, db1, g1, n1)"
    by (metis prod_cases4)
  with Cons.prems have e: "e = None" by (cases e) auto
  from step e have "n1 = Suc n" by (simp add: process_item_count)
  moreover from Cons.prems step e have "process_loop gw t sel c rs (db1, g1, n1) = (None, db', g', n')"
    by simp
  ultimately show ?case using Cons.IH by fastforce
qed

subsection \<open>The effect of one iteration and of the loop on the table\<close>

lemma discount_update_present:
  "i \<in> ident ` set (discounts db) \<Longrightarrow>
   discount_update i f db = Inr (db\<lparr>discounts := map (\<lambda>d. if ident d = i then f d else d) (discounts db)\<rparr>)"
  by (simp add: discount_update_def)

lemma mark_failed_present:
  "i \<in> ident ` set (discounts db) \<Longrightarrow>
   \<exists>f. mark_failed i m db = Inr (db\<lparr>discounts := map (\<lambda>d. if ident d = i then f d else d) (discounts db)\<rparr>)
     \<and> (\<forall>d. resolution d (f d))"
  unfolding mark_failed_def resolution_def
  by (rule exI [where x = "\<lambda>d. d\<lparr>status := FAILED, errorMessage := Some m\<rparr>"])
     (auto simp add: discount_update_present)

lemma mark_created_present:
  "i \<in> ident ` set (discounts db) \<Longrightarrow>
   \<exists>f. mark_created i rid db = Inr (db\<lparr>discounts := map (\<lambda>d. if ident d = i then f d else d) (discounts db)\<rparr>)
     \<and> (\<forall>d. resolution d (f d))"
  unfolding mark_created_def resolution_def
  by (rule exI [where x = "\<lambda>d. d\<lparr>status := CREATED, shopifyId := Some rid\<rparr>"])
     (auto simp add: discount_update_present)

lemma record_result_present:
  "i \<in> ident ` set (discounts db) \<Longrightarrow>
   \<exists>f. record_result i body db = Inr (db\<lparr>discounts := map (\<lambda>d. if ident d = i then f d else d) (discounts db)\<rparr>)
     \<and> (\<forall>d. resolution d (f d))"
  unfolding record_result_def
  by (auto split: option.splits list.splits intro: mark_failed_present mark_created_present)

lemma try_item_nullish:
  assumes "try_item gw t sel c r db g = (Inl Nullish, g1)"
  shows "\<exists>inp. fst (discountCodeBasicCreate gw g inp) = Inl Nullish"
proof (cases "discountInput t sel c r")
  case (Inl m)
  with assms show ?thesis by (simp add: try_item_def)
next
  case (Inr inp)
  with assms have "fst (discountCodeBasicCreate gw g inp) = Inl Nullish"
    by (auto simp add: try_item_def split: prod.splits sum.splits)
  then show ?thesis ..
qed

lemma process_item_effect:
  assumes "ident r \<in> ident ` set (discounts db)"
  shows "(\<exists>f g'. process_item gw t sel c r (db, g, n)
            = (None, db\<lparr>discounts := map (\<lambda>d. if ident d = ident r then f d else d) (discounts db)\<rparr>, g', Suc n)
          \<and> (\<forall>d. resolution d (f d)))
       \<or> (\<exists>m g'. process_item gw t sel c r (db, g, n) = (Some m, db, g', n)
            \<and> (\<exists>g0 inp. fst (discountCodeBasicCreate gw g0 inp) = Inl Nullish))"
proof (cases "try_item gw t sel c r db g")
  case (Pair res g1)
  show ?thesis
  proof (cases res)
    case (Inl e)
    show ?thesis
    proof (cases e)
      case Nullish
      with Pair Inl have "\<exists>g0 inp. fst (discountCodeBasicCreate gw g0 inp) = Inl Nullish"
        using try_item_nullish [of gw t sel c r db g g1] by blast
      moreover from Pair Inl Nullish
      have "\<exists>m. process_item gw t sel c r (db, g, n) = (Some m, db, g1, n)"
        by (simp add: process_item_def)
      ultimately show ?thesis by blast
    next
      case (Thrown m)
      from mark_failed_present [OF assms, of "or_default m ''Unknown error''"] obtain f where
        "mark_failed (ident r) (or_default m ''Unknown error'') db
           = Inr (db\<lparr>discounts := map (\<lambda>d. if ident d = ident r then f d else d) (discounts db)\<rparr>)"
        "\<forall>d. resolution d (f d)" by blast
      with Pair Inl Thrown
      have "process_item gw t sel c r (db, g, n)
              = (None, db\<lparr>discounts := map (\<lambda>d. if ident d = ident r then f d else d) (discounts db)\<rparr>,
                 g1, Suc n) \<and> (\<forall>d. resolution d (f d))"
        by (simp add: process_item_def)
      then show ?thesis by (intro disjI1 exI)
    qed
  next
    case (Inr db1)
    from Pair Inr obtain body where body: "record_result (ident r) body db = Inr db1"
      unfolding try_item_def by (auto split: sum.splits prod.splits)
    from record_result_present [OF assms, of body] obtain f where
      "record_result (ident r) body db
         = Inr (db\<lparr>discounts := map (\<lambda>d. if ident d = ident r then f d else d) (discounts db)\<rparr>)"
      "\<forall>d. resolution d (f d)" by blast
    with body Pair Inr
    have "process_item gw t sel c r (db, g, n)
            = (None, db\<lparr>discounts := map (\<lambda>d. if ident d = ident r then f d else d) (discounts db)\<rparr>,
               g1, Suc n) \<and> (\<forall>d. resolution d (f d))"
      by (simp add: process_item_def)
    then show ?thesis by (intro disjI1 exI)
  qed
qed

lemma resolution_ident: "resolution d d' \<Longrightarrow> ident d' = ident d"
  by (auto simp add: resolution_def)

lemma process_loop_prefix:
  assumes "distinct (map ident rs)" and "ident ` set rs \<subseteq> ident ` set (discounts db)"
  shows "\<exists>F g' k e.
           k \<le> length rs
           \<and> process_loop gw t sel c rs (db, g, n)
               = (e, db\<lparr>discounts := map (\<lambda>d. if ident d \<in> ident ` set (take k rs) then F d else d)
                                        (discounts db)\<rparr>, g', n + k)
           \<and> (\<forall>d. resolution d (F d))
           \<and> (e = None \<longrightarrow> k = length rs)
           \<and> (e \<noteq> None \<longrightarrow> (\<exists>g0 inp. fst (discountCodeBasicCreate gw g0 inp) = Inl Nullish))"
  using assms
proof (induction rs arbitrary: db g n)
  case Nil
  let ?F = "\<lambda>d::Discount. d\<lparr>status := FAILED, errorMessage := Some []\<rparr>"
  have "\<forall>d. resolution d (?F d)" by (auto simp add: resolution_def)
  then show ?case
    by (intro exI [where x = ?F] exI [where x = g] exI [where x = 0] exI [where x = None]) simp
next
  case (Cons r rs)
  let ?rows = "discounts db"
  from Cons.prems have r_in: "ident r \<in> ident ` set ?rows" by simp
  from process_item_effect [OF r_in, of gw t sel c g n] show ?case
  proof
    assume "\<exists>f g'. process_item gw t sel c r (db, g, n)
            = (None, db\<lparr>discounts := map (\<lambda>d. if ident d = ident r then f d else d) ?rows\<rparr>, g', Suc n)
          \<and> (\<forall>d. resolution d (f d))"
    then obtain f g1 where
      step: "process_item gw t sel c r (db, g, n)
               = (None, db\<lparr>discounts := map (\<lambda>d. if ident d = ident r then f d else d) ?rows\<rparr>, g1, Suc n)"
      and f: "\<forall>d. resolution d (f d)" by blast
    let ?db1 = "db\<lparr>discounts := map (\<lambda>d. if ident d = ident r then f d else d) ?rows\<rparr>"
    have fid: "\<And>d. ident (f d) = ident d"
      using f resolution_ident by blast
    have ids1: "map ident (discounts ?db1) = map ident ?rows"
      by (auto simp add: fid)
    have "ident ` set (discounts ?db1) = ident ` set ?rows"
      using ids1 by (metis set_map)
    with Cons.prems have sub: "ident ` set rs \<subseteq> ident ` set (discounts ?db1)" by auto
    from Cons.prems have dist: "distinct (map ident rs)" and notin: "ident r \<notin> ident ` set rs" by auto
    from Cons.IH [OF dist sub, of g1 "Suc n"] obtain F g' k e where
      k: "k \<le> length rs"
      and rest: "process_loop gw t sel c rs (?db1, g1, Suc n)
               = (e, ?db1\<lparr>discounts := map (\<lambda>d. if ident d \<in> ident ` set (take k rs) then F d else d)
                                          (discounts ?db1)\<rparr>, g', Suc n + k)"
      and F: "\<forall>d. resolution d (F d)"
      and full: "e = None \<longrightarrow> k = length rs"
      and null: "e \<noteq> None \<longrightarrow> (\<exists>g0 inp. fst (discountCodeBasicCreate gw g0 inp) = Inl Nullish)"
      by (elim exE conjE) (rule that)
    have notin': "ident r \<notin> ident ` set (take k rs)"
      using notin set_take_subset [of k rs] by blast
    let ?G = "\<lambda>d. if ident d = ident r then f d else F d"
    have rows: "map (\<lambda>d. if ident d \<in> ident ` set (take k rs) then F d else d) (discounts ?db1)
              = map (\<lambda>d. if ident d \<in> ident ` set (take (Suc k) (r # rs)) then ?G d else d) ?rows"
      using notin' by (auto simp add: fid)
    have G: "\<forall>d. resolution d (?G d)" using f F by simp
    have run: "process_loop gw t sel c (r # rs) (db, g, n)
            = (e, db\<lparr>discounts := map (\<lambda>d. if ident d \<in> ident ` set (take (Suc k) (r # rs)) then ?G d else d)
                                     ?rows\<rparr>, g', n + Suc k)"
      using step rest rows by simp
    have k': "Suc k \<le> length (r # rs)" using k by simp
    have full': "e = None \<longrightarrow> Suc k = length (r # rs)" using full by simp
    show ?case
      by (rule exI [where x = ?G], rule exI [where x = g'], rule exI [where x = "Suc k"],
          rule exI [where x = e]) (intro conjI k' run G full' null)
  next
    assume "\<exists>m g'. process_item gw t sel c r (db, g, n) = (Some m, db, g', n)
            \<and> (\<exists>g0 inp. fst (discountCodeBasicCreate gw g0 inp) = Inl Nullish)"
    then obtain m g1 where
      step: "process_item gw t sel c r (db, g, n) = (Some m, db, g1, n)"
      and null: "\<exists>g0 inp. fst (discountCodeBasicCreate gw g0 inp) = Inl Nullish" by blast
    let ?F = "\<lambda>d::Discount. d\<lparr>status := FAILED, errorMessage := Some []\<rparr>"
    have F: "\<forall>d. resolution d (?F d)" by (auto simp add: resolution_def)
    have run: "process_loop gw t sel c (r # rs) (db, g, n)
            = (Some m, db\<lparr>discounts := map (\<lambda>d. if ident d \<in> ident ` set (take 0 (r # rs)) then ?F d else d)
                                          ?rows\<rparr>, g1, n + 0)"
      using step by simp
    show ?case
      by (rule exI [where x = ?F], rule exI [where x = g1], rule exI [where x = 0],
          rule exI [where x = "Some m"]) (use run F null in simp)
  qed
qed

lemma process_loop_effect:
  assumes "distinct (map ident rs)" and "ident ` set rs \<subseteq> ident ` set (discounts db)"
      and nonull: "\<And>g0 inp. fst (discountCodeBasicCreate gw g0 inp) \<noteq> Inl Nullish"
  shows "\<exists>F g'. process_loop gw t sel c rs (db, g, n)
            = (None, db\<lparr>discounts := map (\<lambda>d. if ident d \<in> ident ` set rs then F d else d) (discounts db)\<rparr>,
               g', n + length rs)
          \<and> (\<forall>d. resolution d (F d))"
proof -
  from process_loop_prefix [OF assms(1,2), of gw t sel c g n] obtain F g' k e where
    run: "process_loop gw t sel c rs (db, g, n)
               = (e, db\<lparr>discounts := map (\<lambda>d. if ident d \<in> ident ` set (take k rs) then F d else d)
                                        (discounts db)\<rparr>, g', n + k)"
    and F: "\<forall>d. resolution d (F d)"
    and full: "e = None \<longrightarrow> k = length rs"
    and null: "e \<noteq> None \<longrightarrow> (\<exists>g0 inp. fst (discountCodeBasicCreate gw g0 inp) = Inl Nullish)"
    by (elim exE conjE) (rule that)
  from null nonull have e: "e = None" by blast
  with full have k: "k = length rs" by simp
  from run e k have "process_loop gw t sel c rs (db, g, n)
            = (None, db\<lparr>discounts := map (\<lambda>d. if ident d \<in> ident ` set rs then F d else d) (discounts db)\<rparr>,
               g', n + length rs)" by simp
  with F show ?thesis by (intro exI conjI)
qed

subsection \<open>The claimed rows\<close>

lemma findMany_subset: "set (discount_findMany sid st n db) \<subseteq> set (discounts db)"
  unfolding discount_findMany_def
  by (meson filter_is_subset set_take_subset subset_trans)

lemma findMany_status:
  "d \<in> set (discount_findMany sid st n db) \<Longrightarrow> discountSetId d = Some sid \<and> status d = st"
  unfolding discount_findMany_def in_set_with_status_def
  by (auto dest: in_set_takeD)

lemma findMany_distinct:
  "primary_key db \<Longrightarrow> distinct (map ident (discount_findMany sid st n db))"
  unfolding discount_findMany_def primary_key_def
  by (simp add: distinct_map_filter take_map [symmetric])

lemma primary_key_unique:
  "primary_key db \<Longrightarrow> d \<in> set (discounts db) \<Longrightarrow> c \<in> set (discounts db) \<Longrightarrow> ident d = ident c
     \<Longrightarrow> d = c"
  unfolding primary_key_def
  by (auto simp add: distinct_map dest: inj_onD)

lemma filter_not_in_prefix:
  "distinct (map f (xs @ zs)) \<Longrightarrow> filter (\<lambda>d. f d \<notin> f ` set xs) (xs @ zs) = zs"
  by (auto simp add: filter_empty_conv filter_id_conv)

lemma filter_not_in_take:
  assumes "distinct (map f ys)"
  shows "filter (\<lambda>d. f d \<notin> f ` set (take n ys)) ys = drop n ys"
proof -
  have "distinct (map f (take n ys @ drop n ys))" using assms by simp
  from filter_not_in_prefix [OF this] show ?thesis by simp
qed

lemma resolution_facts:
  "resolution d d' \<Longrightarrow> ident d' = ident d \<and> discountSetId d' = discountSetId d \<and> status d' \<noteq> PENDING"
  by (auto simp add: resolution_def)

lemma count_after_resolving:
  assumes pk: "primary_key db" and F: "\<forall>d. resolution d (F d)"
  shows "discount_count sid PENDING
           (db\<lparr>discounts := map (\<lambda>d. if ident d \<in> ident ` set (discount_findMany sid PENDING n db) then F d else d)
                               (discounts db)\<rparr>)
         = discount_count sid PENDING db - n"
proof -
  let ?P = "in_set_with_status sid PENDING"
  let ?ys = "filter ?P (discounts db)"
  let ?S = "ident ` set (take n ?ys)"
  let ?h = "\<lambda>d. if ident d \<in> ?S then F d else d"
  have Ph: "\<And>d. ?P (?h d) = (?P d \<and> ident d \<notin> ?S)"
  proof -
    fix d
    from F have "resolution d (F d)" by simp
    from resolution_facts [OF this] show "?P (?h d) = (?P d \<and> ident d \<notin> ?S)"
      unfolding in_set_with_status_def by simp
  qed
  have "filter ?P (map ?h (discounts db)) = map ?h (filter (\<lambda>d. ident d \<notin> ?S) ?ys)"
    by (simp add: filter_map comp_def Ph conj_commute)
  moreover have "distinct (map ident ?ys)"
    using pk unfolding primary_key_def by (simp add: distinct_map_filter)
  then have "filter (\<lambda>d. ident d \<notin> ?S) ?ys = drop n ?ys"
    by (rule filter_not_in_take)
  ultimately have "length (filter ?P (map ?h (discounts db))) = length ?ys - n"
    by simp
  then show ?thesis
    unfolding discount_count_def discount_findMany_def by simp
qed

subsection \<open>A call that reaches the loop\<close>

lemma process_pending_run:
  assumes pk: "primary_key db"
      and found: "discountSet_findUnique sid db = Some s"
      and nonempty: "discount_findMany sid PENDING BATCH_SIZE db \<noteq> []"
      and fetch: "getDiscount gw g (set_masterDiscountId s) = (Inr body, g1)"
      and tpl: "data_discountNode_discount body = Some (BasicDiscount tpl)"
      and nonull: "\<And>g0 inp. fst (discountCodeBasicCreate gw g0 inp) \<noteq> Inl Nullish"
  shows "\<exists>F g' resp.
           process_pending gw sid db g
             = (Inr resp,
                db\<lparr>discounts := map (\<lambda>d. if ident d \<in> ident ` set (discount_findMany sid PENDING BATCH_SIZE db)
                                           then F d else d) (discounts db)\<rparr>, g')
           \<and> (\<forall>d. resolution d (F d))
           \<and> processed resp = length (discount_findMany sid PENDING BATCH_SIZE db)
           \<and> remaining resp = discount_count sid PENDING db - BATCH_SIZE
           \<and> complete resp = (remaining resp = 0)"
proof -
  let ?claimed = "discount_findMany sid PENDING BATCH_SIZE db"
  have dist: "distinct (map ident ?claimed)" using pk by (rule findMany_distinct)
  have sub: "ident ` set ?claimed \<subseteq> ident ` set (discounts db)"
    using findMany_subset [of sid PENDING BATCH_SIZE db] by blast
  from process_loop_effect [OF dist sub nonull, of tpl "buildItemSelection tpl" "buildCustomerContext tpl" g1 0]
  obtain F g' where
    loop: "process_loop gw tpl (buildItemSelection tpl) (buildCustomerContext tpl) ?claimed (db, g1, 0)
             = (None, db\<lparr>discounts := map (\<lambda>d. if ident d \<in> ident ` set ?claimed then F d else d) (discounts db)\<rparr>,
                g', 0 + length ?claimed)"
    and F: "\<forall>d. resolution d (F d)" by blast
  let ?db' = "db\<lparr>discounts := map (\<lambda>d. if ident d \<in> ident ` set ?claimed then F d else d) (discounts db)\<rparr>"
  have cnt: "discount_count sid PENDING ?db' = discount_count sid PENDING db - BATCH_SIZE"
    using pk F by (rule count_after_resolving)
  have "\<exists>resp. process_pending gw sid db g = (Inr resp, ?db', g')
           \<and> processed resp = length ?claimed
           \<and> remaining resp = discount_count sid PENDING ?db'
           \<and> complete resp = (remaining resp = 0)"
    using found nonempty fetch tpl loop
    by (simp add: process_pending_def Let_def)
  with cnt F show ?thesis by auto
qed

lemma ex_run: "\<exists>resp db'. process_pending ex_gateway 1 ex_db () = (Inr resp, db', ())"
  by (simp add: process_pending_def discountSet_findUnique_def discount_findMany_def ex_db_def ex_row_def
        in_set_with_status_def BATCH_SIZE_def ex_gateway_def data_discountNode_discount_def
        process_item_def try_item_def discountInput_def valueInput_def ex_template_def
        record_result_def mark_created_def discount_update_def Let_def)

subsection \<open>Every call resolves PENDING rows only\<close>

lemma process_pending_cases:
  assumes pk: "primary_key db" and run: "process_pending gw sid db g = (res, db', g')"
  shows "db' = db
       \<or> (\<exists>F k. db' = db\<lparr>discounts :=
                          map (\<lambda>d. if ident d \<in> ident ` set (take k (discount_findMany sid PENDING BATCH_SIZE db))
                                   then F d else d) (discounts db)\<rparr>
              \<and> (\<forall>d. resolution d (F d)))"
proof (cases "discountSet_findUnique sid db")
  case None
  with run show ?thesis by (simp add: process_pending_def)
next
  case (Some s)
  show ?thesis
  proof (cases "discount_findMany sid PENDING BATCH_SIZE db = []")
    case True
    with run Some show ?thesis by (auto simp add: process_pending_def)
  next
    case False
    obtain r g1 where f: "getDiscount gw g (set_masterDiscountId s) = (r, g1)"
      by (cases "getDiscount gw g (set_masterDiscountId s)")
    show ?thesis
    proof (cases r)
      case (Inl m)
      with run Some False f show ?thesis by (auto simp add: process_pending_def)
    next
      case (Inr body)
      show ?thesis
      proof (cases "data_discountNode_discount body")
        case None
        with run Some False f Inr show ?thesis by (auto simp add: process_pending_def)
      next
        case (Some obj)
        show ?thesis
        proof (cases obj)
          case OtherDiscount
          with run \<open>discountSet_findUnique sid db = Some s\<close> False f Inr Some show ?thesis
            by (auto simp add: process_pending_def)
        next
          case (BasicDiscount tpl)
          from f Inr have f': "getDiscount gw g (set_masterDiscountId s) = (Inr body, g1)" by simp
          from Some BasicDiscount have t: "data_discountNode_discount body = Some (BasicDiscount tpl)"
            by simp
          let ?claimed = "discount_findMany sid PENDING BATCH_SIZE db"
          have dist: "distinct (map ident ?claimed)" using pk by (rule findMany_distinct)
          have sub: "ident ` set ?claimed \<subseteq> ident ` set (discounts db)"
            using findMany_subset [of sid PENDING BATCH_SIZE db] by blast
          from process_loop_prefix [OF dist sub, of gw tpl "buildItemSelection tpl" "buildCustomerContext tpl" g1 0]
          obtain F g2 k e where
            loop: "process_loop gw tpl (buildItemSelection tpl) (buildCustomerContext tpl) ?claimed (db, g1, 0)
                     = (e, db\<lparr>discounts := map (\<lambda>d. if ident d \<in> ident ` set (take k ?claimed) then F d else d)
                                              (discounts db)\<rparr>, g2, 0 + k)"
            and F: "\<forall>d. resolution d (F d)"
            by (elim exE conjE) (rule that)
          from run \<open>discountSet_findUnique sid db = Some s\<close> False f' t loop
          have "db' = db\<lparr>discounts := map (\<lambda>d. if ident d \<in> ident ` set (take k ?claimed) then F d else d)
                                       (discounts db)\<rparr>"
            by (cases e) (simp_all add: process_pending_def Let_def)
          with F show ?thesis by blast
        qed
      qed
    qed
  qed
qed

lemma process_pending_rows:
  assumes pk: "primary_key db" and run: "process_pending gw sid db g = (res, db', g')"
  shows "discountSets db' = discountSets db \<and> nextId db' = nextId db
       \<and> list_all2 row_resolved (discounts db) (discounts db')"
proof -
  have refl: "list_all2 row_resolved (discounts db) (discounts db)"
    by (simp add: list_all2_same row_resolved_def)
  from process_pending_cases [OF pk run] show ?thesis
  proof
    assume "db' = db"
    with refl show ?thesis by simp
  next
    let ?claimed = "discount_findMany sid PENDING BATCH_SIZE db"
    assume "\<exists>F k. db' = db\<lparr>discounts := map (\<lambda>d. if ident d \<in> ident ` set (take k ?claimed) then F d else d)
                                           (discounts db)\<rparr>
              \<and> (\<forall>d. resolution d (F d))"
    then obtain F k where
      db': "db' = db\<lparr>discounts := map (\<lambda>d. if ident d \<in> ident ` set (take k ?claimed) then F d else d)
                                    (discounts db)\<rparr>"
      and F: "\<forall>d. resolution d (F d)" by blast
    have "row_resolved d (if ident d \<in> ident ` set (take k ?claimed) then F d else d)"
      if d: "d \<in> set (discounts db)" for d
    proof (cases "ident d \<in> ident ` set (take k ?claimed)")
      case True
      then obtain c where "c \<in> set (take k ?claimed)" "ident d = ident c" by auto
      then have c: "c \<in> set ?claimed" "ident d = ident c" by (auto dest: in_set_takeD)
      with findMany_subset [of sid PENDING BATCH_SIZE db] have "c \<in> set (discounts db)" by auto
      with pk d c have "d = c" by (auto intro: primary_key_unique)
      with c findMany_status [of c sid PENDING BATCH_SIZE db] have "status d = PENDING" by simp
      with True F show ?thesis by (simp add: row_resolved_def)
    next
      case False
      then show ?thesis by (simp add: row_resolved_def)
    qed
    then have "list_all2 row_resolved (discounts db) (discounts db')"
      unfolding db' by (simp add: list_all2_map2 list_all2_same)
    with db' show ?thesis by simp
  qed
qed

lemma row_resolved_ident: "row_resolved d d' \<Longrightarrow> ident d' = ident d"
  by (auto simp add: row_resolved_def resolution_def)

lemma rows_resolved_idents:
  "list_all2 row_resolved xs ys \<Longrightarrow> map ident ys = map ident xs"
  by (induction rule: list_all2_induct) (auto simp add: row_resolved_ident)

lemma process_pending_primary_key:
  "primary_key db \<Longrightarrow> process_pending gw sid db g = (res, db', g') \<Longrightarrow> primary_key db'"
  using process_pending_rows [of db gw sid g res db' g'] rows_resolved_idents
  unfolding primary_key_def by metis

lemma rows_resolved_keeps_settled:
  "list_all2 row_resolved xs ys \<Longrightarrow> d \<in> set xs \<Longrightarrow> status d \<noteq> PENDING \<Longrightarrow> d \<in> set ys"
  by (induction rule: list_all2_induct) (auto simp add: row_resolved_def)

lemma find_unique_row:
  "distinct (map ident ys) \<Longrightarrow> d \<in> set ys \<Longrightarrow> find (\<lambda>x. ident x = ident d) ys = Some d"
  by (induction ys) auto

lemma process_many_keeps_settled:
  "primary_key db \<Longrightarrow> d \<in> set (discounts db) \<Longrightarrow> status d \<noteq> PENDING
     \<Longrightarrow> process_many gw sids db g = (db', g')
     \<Longrightarrow> primary_key db' \<and> d \<in> set (discounts db')"
proof (induction sids arbitrary: db g)
  case Nil
  then show ?case by simp
next
  case (Cons sid sids)
  obtain res db1 g1 where step: "process_pending gw sid db g = (res, db1, g1)"
    by (metis prod_cases3)
  from process_pending_primary_key [OF Cons.prems(1) step] have pk1: "primary_key db1" .
  from process_pending_rows [OF Cons.prems(1) step] Cons.prems(2,3)
  have d1: "d \<in> set (discounts db1)" by (auto dest: rows_resolved_keeps_settled)
  from Cons.prems(4) step have "process_many gw sids db1 g1 = (db', g')" by simp
  from Cons.IH [OF pk1 d1 Cons.prems(3) this] show ?case .
qed

subsection \<open>The status invariant\<close>

lemma new_discount_ok: "status_row_ok (new_discount sh mid sid ic)"
  by (simp add: status_row_ok_def new_discount_def)

lemma discountSet_create_discounts:
  "discountSet_create nm sh mid db = (s, db1) \<Longrightarrow> discounts db1 = discounts db"
  by (auto simp add: discountSet_create_def Let_def)

lemma createMany_invariant:
  "status_invariant db \<Longrightarrow> discount_createMany sh mid sid codes db = Inr db' \<Longrightarrow> status_invariant db'"
  unfolding discount_createMany_def status_invariant_def
  by (auto simp add: list_all_iff new_discount_ok split: if_splits)

lemma create_discounts_db:
  "create_discounts gw sh mid nm codes db g = (res, db', g') \<Longrightarrow>
   db' = db
   \<or> db' = snd (discountSet_create nm sh (formatMasterDiscountId mid) db)
   \<or> discount_createMany sh (formatMasterDiscountId mid)
         (set_ident (fst (discountSet_create nm sh (formatMasterDiscountId mid) db))) codes
         (snd (discountSet_create nm sh (formatMasterDiscountId mid) db)) = Inr db'"
  unfolding create_discounts_def
  by (auto simp add: Let_def split: prod.splits sum.splits option.splits list.splits)

lemma create_discounts_invariant:
  assumes "status_invariant db" and "create_discounts gw sh mid nm codes db g = (res, db', g')"
  shows "status_invariant db'"
proof -
  let ?c = "discountSet_create nm sh (formatMasterDiscountId mid) db"
  have "discounts (snd ?c) = discounts db"
    using discountSet_create_discounts [of nm sh "formatMasterDiscountId mid" db "fst ?c" "snd ?c"] by simp
  with assms(1) have inv1: "status_invariant (snd ?c)" by (simp add: status_invariant_def)
  from create_discounts_db [OF assms(2)] show ?thesis
    using assms(1) inv1 createMany_invariant by blast
qed

lemma row_resolved_ok: "status_row_ok d \<Longrightarrow> row_resolved d d' \<Longrightarrow> status_row_ok d'"
  by (auto simp add: status_row_ok_def row_resolved_def resolution_def)

lemma rows_resolved_ok:
  "list_all2 row_resolved xs ys \<Longrightarrow> list_all status_row_ok xs \<Longrightarrow> list_all status_row_ok ys"
  by (induction rule: list_all2_induct) (auto intro: row_resolved_ok)

lemma process_pending_invariant:
  assumes "primary_key db" and "status_invariant db" and "process_pending gw sid db g = (res, db', g')"
  shows "status_invariant db'"
  using process_pending_rows [OF assms(1,3)] assms(2) rows_resolved_ok
  unfolding status_invariant_def by blast

lemma retry_row_ok:
  "status_row_ok d \<Longrightarrow>
   status_row_ok (if in_set_with_status sid FAILED d then d\<lparr>status := PENDING, errorMessage := None\<rparr> else d)"
  by (auto simp add: status_row_ok_def in_set_with_status_def)

lemma retry_rows_ok:
  "list_all status_row_ok xs \<Longrightarrow>
   list_all status_row_ok
     (map (\<lambda>d. if in_set_with_status sid FAILED d then d\<lparr>status := PENDING, errorMessage := None\<rparr> else d) xs)"
  by (induction xs) (simp_all add: retry_row_ok split del: if_split)

lemma retry_failed_invariant:
  assumes "status_invariant db"
  shows "status_invariant (snd (retry_failed sid db))"
  using assms unfolding retry_failed_db discount_updateMany_def status_invariant_def
  by (simp add: retry_rows_ok)

lemma ex_db_primary_key: "primary_key ex_db"
  by (simp add: primary_key_def ex_db_def ex_row_def)

lemma ex_db_status_invariant: "status_invariant ex_db"
  by (simp add: status_invariant_def status_row_ok_def ex_db_def ex_row_def)

subsection \<open>Progress of successive calls\<close>

lemma process_pending_progress:
  assumes pk: "primary_key db"
      and found: "discountSet_findUnique sid db = Some s"
      and avail: "\<forall>g. \<exists>body g1 tpl. getDiscount gw g (set_masterDiscountId s) = (Inr body, g1)
                     \<and> data_discountNode_discount body = Some (BasicDiscount tpl)"
      and nonull: "\<And>g0 inp. fst (discountCodeBasicCreate gw g0 inp) \<noteq> Inl Nullish"
      and pending: "0 < discount_count sid PENDING db"
  shows "\<exists>resp db' g'.
           process_pending gw sid db g = (Inr resp, db', g')
           \<and> processed resp = min BATCH_SIZE (discount_count sid PENDING db)
           \<and> remaining resp = discount_count sid PENDING db - BATCH_SIZE
           \<and> complete resp = (remaining resp = 0)
           \<and> discount_count sid PENDING db' = discount_count sid PENDING db - BATCH_SIZE
           \<and> primary_key db'
           \<and> discountSet_findUnique sid db' = Some s"
proof -
  let ?claimed = "discount_findMany sid PENDING BATCH_SIZE db"
  have len: "length ?claimed = min BATCH_SIZE (discount_count sid PENDING db)"
    by (simp add: discount_findMany_def discount_count_def min.commute)
  with pending have nonempty: "?claimed \<noteq> []"
    by (auto simp add: BATCH_SIZE_def)
  from avail obtain body g1 tpl where
    fetch: "getDiscount gw g (set_masterDiscountId s) = (Inr body, g1)"
    and tpl: "data_discountNode_discount body = Some (BasicDiscount tpl)" by blast
  from process_pending_run [OF pk found nonempty fetch tpl nonull] obtain F g' resp where
    run: "process_pending gw sid db g
            = (Inr resp, db\<lparr>discounts := map (\<lambda>d. if ident d \<in> ident ` set ?claimed then F d else d)
                                              (discounts db)\<rparr>, g')"
    and F: "\<forall>d. resolution d (F d)"
    and p: "processed resp = length ?claimed"
    and r: "remaining resp = discount_count sid PENDING db - BATCH_SIZE"
    and c: "complete resp = (remaining resp = 0)" by (elim exE conjE) (rule that)
  let ?db' = "db\<lparr>discounts := map (\<lambda>d. if ident d \<in> ident ` set ?claimed then F d else d) (discounts db)\<rparr>"
  have cnt: "discount_count sid PENDING ?db' = discount_count sid PENDING db - BATCH_SIZE"
    using pk F by (rule count_after_resolving)
  have pk': "primary_key ?db'"
    using pk run by (rule process_pending_primary_key)
  have found': "discountSet_findUnique sid ?db' = Some s"
    using found by (simp add: discountSet_findUnique_def)
  have "process_pending gw sid db g = (Inr resp, ?db', g')
      \<and> processed resp = min BATCH_SIZE (discount_count sid PENDING db)
      \<and> remaining resp = discount_count sid PENDING db - BATCH_SIZE
      \<and> complete resp = (remaining resp = 0)
      \<and> discount_count sid PENDING ?db' = discount_count sid PENDING db - BATCH_SIZE
      \<and> primary_key ?db'
      \<and> discountSet_findUnique sid ?db' = Some s"
    using run p r c cnt pk' found' len by (intro conjI) simp_all
  then show ?thesis by (intro exI)
qed

lemma process_pending_complete_iff:
  assumes "process_pending gw sid db g = (Inr resp, db', g')"
  shows "complete resp = (remaining resp = 0) \<and> remaining resp = discount_count sid PENDING db'"
proof (cases "discountSet_findUnique sid db")
  case None
  with assms show ?thesis by (simp add: process_pending_def)
next
  case (Some s)
  show ?thesis
  proof (cases "discount_findMany sid PENDING BATCH_SIZE db = []")
    case True
    then have "discount_count sid PENDING db = 0"
      by (simp add: discount_findMany_def discount_count_def BATCH_SIZE_def)
    with assms Some True show ?thesis by (auto simp add: process_pending_def)
  next
    case False
    obtain r g1 where f: "getDiscount gw g (set_masterDiscountId s) = (r, g1)"
      by (cases "getDiscount gw g (set_masterDiscountId s)")
    from assms Some False f obtain t where
      t: "r = Inr t"
      by (cases r) (auto simp add: process_pending_def)
    from assms Some False f t obtain tpl where
      tpl: "data_discountNode_discount t = Some (BasicDiscount tpl)"
      by (auto simp add: process_pending_def split: option.splits DiscountObject.splits)
    obtain e db1 g2 n where
      l: "process_loop gw tpl (buildItemSelection tpl) (buildCustomerContext tpl)
            (discount_findMany sid PENDING BATCH_SIZE db) (db, g1, 0) = (e, db1, g2, n)"
      by (metis prod_cases4)
    from assms Some False f t tpl l have e: "e = None"
      by (cases e) (auto simp add: process_pending_def)
    from assms Some False f t tpl l e show ?thesis
      by (auto simp add: process_pending_def Let_def)
  qed
qed

subsection \<open>Looking rows up after an update\<close>

lemma find_map_row:
  "(\<And>d. ident (f d) = ident d) \<Longrightarrow>
   find (\<lambda>d. ident d = j) (map (\<lambda>d. if ident d = i then f d else d) xs)
     = map_option (\<lambda>d. if ident d = i then f d else d) (find (\<lambda>d. ident d = j) xs)"
  by (induction xs) auto

lemma find_ident: "find (\<lambda>d. ident d = i) xs = Some r \<Longrightarrow> ident r = i \<and> r \<in> set xs"
  by (induction xs) (auto split: if_splits)

lemma update_lookup:
  assumes row: "discount_findUnique i db = Some r" and f: "\<And>d. ident (f d) = ident d"
  shows "\<exists>db'. discount_update i f db = Inr db'
           \<and> discount_findUnique i db' = Some (f r)
           \<and> (\<forall>j. j \<noteq> i \<longrightarrow> discount_findUnique j db' = discount_findUnique j db)"
proof -
  from row have r: "ident r = i" "r \<in> set (discounts db)"
    unfolding discount_findUnique_def by (auto dest: find_ident)
  then have present: "i \<in> ident ` set (discounts db)" by auto
  let ?db' = "db\<lparr>discounts := map (\<lambda>d. if ident d = i then f d else d) (discounts db)\<rparr>"
  have look: "discount_findUnique j ?db'
          = map_option (\<lambda>d. if ident d = i then f d else d) (discount_findUnique j db)" for j
    unfolding discount_findUnique_def using find_map_row [of f j i "discounts db"] f by simp
  have "discount_findUnique i ?db' = Some (f r)"
    using look [of i] row r by simp
  moreover have "discount_findUnique j ?db' = discount_findUnique j db" if "j \<noteq> i" for j
  proof (cases "discount_findUnique j db")
    case None
    with look [of j] show ?thesis by simp
  next
    case (Some d)
    then have "ident d = j" unfolding discount_findUnique_def by (auto dest: find_ident)
    with that Some look [of j] show ?thesis by simp
  qed
  ultimately show ?thesis
    using discount_update_present [OF present, of f] by simp
qed

lemma record_outcome_lookup:
  assumes row: "discount_findUnique (ident r) db = Some r"
  shows "\<exists>db'. (case res of
                  Inl Nullish \<Rightarrow> Inr db
                | Inl (Thrown m) \<Rightarrow> mark_failed (ident r) (or_default m ''Unknown error'') db
                | Inr body \<Rightarrow> record_result (ident r) body db) = Inr db'
           \<and> discount_findUnique (ident r) db' = Some (claimed_outcome res r)
           \<and> (\<forall>j. j \<noteq> ident r \<longrightarrow> discount_findUnique j db' = discount_findUnique j db)"
proof (cases res)
  case (Inl e)
  show ?thesis
  proof (cases e)
    case Nullish
    with Inl row show ?thesis by (simp add: claimed_outcome_def)
  next
    case (Thrown m)
    from update_lookup [OF row, of "\<lambda>d. d\<lparr>status := FAILED, errorMessage := Some (or_default m ''Unknown error'')\<rparr>"]
    show ?thesis using Inl Thrown by (simp add: mark_failed_def claimed_outcome_def or_default_def)
  qed
next
  case (Inr body)
  show ?thesis
  proof (cases "\<exists>u us. userErrors body = Some (u # us)")
    case True
    then obtain u us where ue: "userErrors body = Some (u # us)" by blast
    from update_lookup [OF row,
           of "\<lambda>d. d\<lparr>status := FAILED, errorMessage := Some (join '', '' (map format_userError (u # us)))\<rparr>"]
    show ?thesis using Inr ue
      by (simp add: record_result_def mark_failed_def claimed_outcome_def)
  next
    case False
    then have ue: "userErrors body = None \<or> userErrors body = Some []"
    proof (cases "userErrors body")
      case None
      then show ?thesis by simp
    next
      case (Some a)
      with False show ?thesis by (cases a) auto
    qed
    show ?thesis
    proof (cases "codeDiscountNode body")
      case None
      from update_lookup [OF row, of "\<lambda>d. d\<lparr>status := FAILED, errorMessage := Some ''Unexpected API response''\<rparr>"]
      show ?thesis using Inr ue None
        by (auto simp add: record_result_def mark_failed_def claimed_outcome_def)
    next
      case (Some rid)
      from update_lookup [OF row, of "\<lambda>d. d\<lparr>status := CREATED, shopifyId := Some rid\<rparr>"]
      show ?thesis using Inr ue Some
        by (auto simp add: record_result_def mark_created_def claimed_outcome_def)
    qed
  qed
qed

lemma process_item_logged:
  assumes row: "discount_findUnique (ident r) db = Some r"
      and build: "discountInput t sel c r = Inr inp"
      and call: "discountCodeBasicCreate gw g inp = (res, g')"
      and nonull: "res \<noteq> Inl Nullish"
  shows "\<exists>db'. process_item (logged gw) t sel c r (db, (g, trace), n)
                 = (None, db', (g', trace @ [(inp, res)]), Suc n)
           \<and> discount_findUnique (ident r) db' = Some (claimed_outcome res r)
           \<and> (\<forall>j. j \<noteq> ident r \<longrightarrow> discount_findUnique j db' = discount_findUnique j db)"
proof -
  from record_outcome_lookup [OF row, of res] obtain db' where
    upd: "(case res of
             Inl Nullish \<Rightarrow> Inr db
           | Inl (Thrown m) \<Rightarrow> mark_failed (ident r) (or_default m ''Unknown error'') db
           | Inr body \<Rightarrow> record_result (ident r) body db) = Inr db'"
    and look: "discount_findUnique (ident r) db' = Some (claimed_outcome res r)"
    and frame: "\<forall>j. j \<noteq> ident r \<longrightarrow> discount_findUnique j db' = discount_findUnique j db"
    by (elim exE conjE) (rule that)
  have "process_item (logged gw) t sel c r (db, (g, trace), n)
          = (None, db', (g', trace @ [(inp, res)]), Suc n)"
  proof (cases res)
    case (Inl e)
    with nonull obtain m where "e = Thrown m" by (cases e) auto
    with Inl build call upd show ?thesis
      by (simp add: process_item_def try_item_def logged_def)
  next
    case (Inr body)
    with build call upd show ?thesis
      by (simp add: process_item_def try_item_def logged_def)
  qed
  with look frame show ?thesis by (intro exI conjI)
qed

lemma process_item_unbuilt:
  assumes row: "discount_findUnique (ident r) db = Some r"
      and build: "discountInput t sel c r = Inl m"
  shows "\<exists>db'. process_item gw t sel c r (db, g, n) = (None, db', g, Suc n)
           \<and> discount_findUnique (ident r) db' = Some (claimed_outcome (Inl (Thrown m)) r)
           \<and> (\<forall>j. j \<noteq> ident r \<longrightarrow> discount_findUnique j db' = discount_findUnique j db)"
proof -
  from record_outcome_lookup [OF row, of "Inl (Thrown m)"] obtain db' where
    upd: "mark_failed (ident r) (or_default m ''Unknown error'') db = Inr db'"
    and look: "discount_findUnique (ident r) db' = Some (claimed_outcome (Inl (Thrown m)) r)"
    and frame: "\<forall>j. j \<noteq> ident r \<longrightarrow> discount_findUnique j db' = discount_findUnique j db"
    by auto
  from build upd have "process_item gw t sel c r (db, g, n) = (None, db', g, Suc n)"
    by (simp add: process_item_def try_item_def)
  with look frame show ?thesis by (intro exI conjI)
qed

lemma process_loop_unbuilt:
  assumes "distinct (map ident rs)"
      and "\<forall>r \<in> set rs. discount_findUnique (ident r) db = Some r"
      and v: "valueInput (cg_value (customerGets t)) = Inl m"
  shows "\<exists>db'. process_loop gw t sel c rs (db, g, n) = (None, db', g, n + length rs)
           \<and> (\<forall>j. j \<notin> ident ` set rs \<longrightarrow> discount_findUnique j db' = discount_findUnique j db)
           \<and> (\<forall>r \<in> set rs. discount_findUnique (ident r) db' = Some (claimed_outcome (Inl (Thrown m)) r))"
  using assms(1,2)
proof (induction rs arbitrary: db n)
  case Nil
  show ?case by simp
next
  case (Cons r rs)
  from v have build: "discountInput t sel c r = Inl m"
    by (simp add: discountInput_def)
  from Cons.prems have row: "discount_findUnique (ident r) db = Some r" by simp
  from process_item_unbuilt [OF row build, of gw g n] obtain db1 where
    step: "process_item gw t sel c r (db, g, n) = (None, db1, g, Suc n)"
    and look1: "discount_findUnique (ident r) db1 = Some (claimed_outcome (Inl (Thrown m)) r)"
    and frame1: "\<forall>j. j \<noteq> ident r \<longrightarrow> discount_findUnique j db1 = discount_findUnique j db"
    by (elim exE conjE) (rule that)
  from Cons.prems have dist: "distinct (map ident rs)" and notin: "ident r \<notin> ident ` set rs"
    by auto
  have rows1: "\<forall>r' \<in> set rs. discount_findUnique (ident r') db1 = Some r'"
  proof
    fix r' assume r': "r' \<in> set rs"
    with notin have "ident r' \<noteq> ident r" by (metis imageI)
    with frame1 have "discount_findUnique (ident r') db1 = discount_findUnique (ident r') db" by simp
    with Cons.prems(2) r' show "discount_findUnique (ident r') db1 = Some r'" by simp
  qed
  from Cons.IH [OF dist rows1, of "Suc n"] obtain db' where
    rest: "process_loop gw t sel c rs (db1, g, Suc n) = (None, db', g, Suc n + length rs)"
    and frame: "\<forall>j. j \<notin> ident ` set rs \<longrightarrow> discount_findUnique j db' = discount_findUnique j db1"
    and each: "\<forall>r' \<in> set rs. discount_findUnique (ident r') db' = Some (claimed_outcome (Inl (Thrown m)) r')"
    by (elim exE conjE) (rule that)
  have run: "process_loop gw t sel c (r # rs) (db, g, n) = (None, db', g, n + length (r # rs))"
    using step rest by simp
  have frame': "\<forall>j. j \<notin> ident ` set (r # rs) \<longrightarrow> discount_findUnique j db' = discount_findUnique j db"
    using frame frame1 by simp
  have "discount_findUnique (ident r) db' = Some (claimed_outcome (Inl (Thrown m)) r)"
    using frame notin look1 by simp
  with each
  have each': "\<forall>r' \<in> set (r # rs). discount_findUnique (ident r') db' = Some (claimed_outcome (Inl (Thrown m)) r')"
    by simp
  show ?case
    by (rule exI [where x = db']) (intro conjI run frame' each')
qed

lemma ex_submitted_primary_key: "primary_key ex_submitted"
  by code_simp

lemma ex_submitted_set:
  "discountSet_findUnique 1 ex_submitted
     = Some \<lparr>set_ident = 1, set_name = ''Spring'', set_shop = ''s'',
             set_masterDiscountId = ''gid://shopify/DiscountCodeNode/7''\<rparr>"
  by code_simp

lemma ex_submitted_count: "discount_count 1 PENDING ex_submitted = 12"
  by code_simp

lemma ex_gateway_available:
  "\<forall>g. \<exists>body g1 tpl. getDiscount ex_gateway g i = (Inr body, g1)
         \<and> data_discountNode_discount body = Some (BasicDiscount tpl)"
  by (simp add: ex_gateway_def data_discountNode_discount_def)

lemma ex_gateway_never_null: "fst (discountCodeBasicCreate ex_gateway g0 inp) \<noteq> Inl Nullish"
  by (simp add: ex_gateway_def)

subsection \<open>The observed requests and their outcomes\<close>

lemma process_loop_logged:
  assumes "distinct (map ident rs)"
      and "\<forall>r \<in> set rs. discount_findUnique (ident r) db = Some r"
      and v: "valueInput (cg_value (customerGets t)) = Inr v"
      and nonull: "\<And>g0 inp. fst (discountCodeBasicCreate gw g0 inp) \<noteq> Inl Nullish"
  shows "\<exists>db' g' es.
           process_loop (logged gw) t sel c rs (db, (g, trace), n)
             = (None, db', (g', trace @ es), n + length rs)
           \<and> length es = length rs
           \<and> (\<forall>j. j \<notin> ident ` set rs \<longrightarrow> discount_findUnique j db' = discount_findUnique j db)
           \<and> (\<forall>i < length rs.
                 discountInput t sel c (rs ! i) = Inr (fst (es ! i))
                 \<and> discount_findUnique (ident (rs ! i)) db' = Some (claimed_outcome (snd (es ! i)) (rs ! i)))"
  using assms(1,2)
proof (induction rs arbitrary: db g trace n)
  case Nil
  show ?case by (rule exI [where x = db], rule exI [where x = g], rule exI [where x = "[]"]) simp
next
  case (Cons r rs)
  from v obtain inp where build: "discountInput t sel c r = Inr inp"
    by (simp add: discountInput_def)
  obtain res g1 where call: "discountCodeBasicCreate gw g inp = (res, g1)"
    by (cases "discountCodeBasicCreate gw g inp")
  from Cons.prems have row: "discount_findUnique (ident r) db = Some r" by simp
  from nonull [of g inp] call have nn: "res \<noteq> Inl Nullish" by simp
  from process_item_logged [OF row build call nn, of trace n] obtain db1 where
    step: "process_item (logged gw) t sel c r (db, (g, trace), n)
             = (None, db1, (g1, trace @ [(inp, res)]), Suc n)"
    and look1: "discount_findUnique (ident r) db1 = Some (claimed_outcome res r)"
    and frame1: "\<forall>j. j \<noteq> ident r \<longrightarrow> discount_findUnique j db1 = discount_findUnique j db"
    by (elim exE conjE) (rule that)
  from Cons.prems have dist: "distinct (map ident rs)" and notin: "ident r \<notin> ident ` set rs"
    by auto
  have rows1: "\<forall>r' \<in> set rs. discount_findUnique (ident r') db1 = Some r'"
  proof
    fix r' assume r': "r' \<in> set rs"
    with notin have "ident r' \<noteq> ident r" by (metis imageI)
    with frame1 have "discount_findUnique (ident r') db1 = discount_findUnique (ident r') db" by simp
    with Cons.prems(2) r' show "discount_findUnique (ident r') db1 = Some r'" by simp
  qed
  from Cons.IH [OF dist rows1, of g1 "trace @ [(inp, res)]" "Suc n"] obtain db' g' es where
    rest: "process_loop (logged gw) t sel c rs (db1, (g1, trace @ [(inp, res)]), Suc n)
             = (None, db', (g', (trace @ [(inp, res)]) @ es), Suc n + length rs)"
    and len: "length es = length rs"
    and frame: "\<forall>j. j \<notin> ident ` set rs \<longrightarrow> discount_findUnique j db' = discount_findUnique j db1"
    and each: "\<forall>i < length rs.
                 discountInput t sel c (rs ! i) = Inr (fst (es ! i))
                 \<and> discount_findUnique (ident (rs ! i)) db' = Some (claimed_outcome (snd (es ! i)) (rs ! i))"
    by (elim exE conjE) (rule that)
  let ?es = "(inp, res) # es"
  have run: "process_loop (logged gw) t sel c (r # rs) (db, (g, trace), n)
               = (None, db', (g', trace @ ?es), n + length (r # rs))"
    using step rest by simp
  have len': "length ?es = length (r # rs)" using len by simp
  have frame': "\<forall>j. j \<notin> ident ` set (r # rs) \<longrightarrow> discount_findUnique j db' = discount_findUnique j db"
    using frame frame1 by simp
  have each': "\<forall>i < length (r # rs).
                 discountInput t sel c ((r # rs) ! i) = Inr (fst (?es ! i))
                 \<and> discount_findUnique (ident ((r # rs) ! i)) db'
                     = Some (claimed_outcome (snd (?es ! i)) ((r # rs) ! i))"
  proof (intro allI impI)
    fix i assume i: "i < length (r # rs)"
    show "discountInput t sel c ((r # rs) ! i) = Inr (fst (?es ! i))
          \<and> discount_findUnique (ident ((r # rs) ! i)) db'
              = Some (claimed_outcome (snd (?es ! i)) ((r # rs) ! i))"
    proof (cases i)
      case 0
      from frame notin look1 have "discount_findUnique (ident r) db' = Some (claimed_outcome res r)"
        by simp
      with 0 build show ?thesis by simp
    next
      case (Suc k)
      with i have "k < length rs" by simp
      with each Suc show ?thesis by simp
    qed
  qed
  show ?case
    by (rule exI [where x = db'], rule exI [where x = g'], rule exI [where x = ?es])
       (intro conjI run len' frame' each')
qed

lemma logged_getDiscount:
  "getDiscount gw g i = (r, g1) \<Longrightarrow> getDiscount (logged gw) (g, trace) i = (r, (g1, trace))"
  by (simp add: logged_def)

lemma claimed_rows_current:
  assumes "primary_key db"
  shows "\<forall>r \<in> set (discount_findMany sid st n db). discount_findUnique (ident r) db = Some r"
proof
  fix r assume "r \<in> set (discount_findMany sid st n db)"
  with findMany_subset [of sid st n db] have "r \<in> set (discounts db)" by auto
  with assms show "discount_findUnique (ident r) db = Some r"
    unfolding primary_key_def discount_findUnique_def by (simp add: find_unique_row)
qed

lemma ex_silent_run:
  "map_option errorMessage
     (discount_findUnique 2 (fst (snd (process_pending ex_gateway_silent 1 ex_db ()))))
   = Some (Some ''Unknown error'')"
  by code_simp

lemma ex_logged_requests:
  "requests_of (process_pending (logged ex_gateway) 1 ex_db ((), []))
     = [\<lparr>in_code = ''A'', in_title = ''Welcome'', in_startsAt = ''2025-01-01'', in_endsAt = None,
         in_context = Context_all (JString ''ALL''), in_value = Value_percentage 10,
         in_items = Items_all (JString ''ALL''), in_minimumRequirement = None,
         in_usageLimit = Some 100, in_appliesOncePerCustomer = False\<rparr>]"
  by code_simp

subsection \<open>Every request is built from the template\<close>

lemma process_item_requests:
  assumes "process_item (logged gw) t sel c r (db, (g, trace), n) = (e, db', (g', trace'), n')"
  shows "trace' = trace \<or> (\<exists>inp res. trace' = trace @ [(inp, res)] \<and> discountInput t sel c r = Inr inp)"
proof (cases "discountInput t sel c r")
  case (Inl m)
  with assms show ?thesis
    by (auto simp add: process_item_def try_item_def split: sum.splits thrown_value.splits)
next
  case (Inr inp)
  obtain res g1 where call: "discountCodeBasicCreate gw g inp = (res, g1)"
    by (cases "discountCodeBasicCreate gw g inp")
  then have "discountCodeBasicCreate (logged gw) (g, trace) inp = (res, (g1, trace @ [(inp, res)]))"
    by (simp add: logged_def)
  with assms Inr have "trace' = trace @ [(inp, res)]"
    by (auto simp add: process_item_def try_item_def split: sum.splits thrown_value.splits)
  with Inr show ?thesis by blast
qed

lemma process_loop_requests:
  "process_loop (logged gw) t sel c rs (db, (g, trace), n) = (e, db', (g', trace'), n') \<Longrightarrow>
   \<exists>es. trace' = trace @ es \<and> (\<forall>x \<in> set es. \<exists>r \<in> set rs. discountInput t sel c r = Inr (fst x))"
proof (induction rs arbitrary: db g trace n)
  case Nil
  then show ?case by simp
next
  case (Cons r rs)
  obtain e1 db1 g1 trace1 n1 where
    step: "process_item (logged gw) t sel c r (db, (g, trace), n) = (e1, db1, (g1, trace1), n1)"
    by (metis surj_pair)
  from process_item_requests [OF step] obtain es1 where
    es1: "trace1 = trace @ es1" "\<forall>x \<in> set es1. discountInput t sel c r = Inr (fst x)"
    by auto
  show ?case
  proof (cases e1)
    case (Some m)
    with Cons.prems step have "trace' = trace1" by simp
    with es1 show ?thesis by auto
  next
    case None
    with Cons.prems step
    have "process_loop (logged gw) t sel c rs (db1, (g1, trace1), n1) = (e, db', (g', trace'), n')"
      by simp
    from Cons.IH [OF this] obtain es where
      es: "trace' = trace1 @ es" "\<forall>x \<in> set es. \<exists>r \<in> set rs. discountInput t sel c r = Inr (fst x)"
      by blast
    from es1 es have "trace' = trace @ (es1 @ es)" by simp
    moreover from es1 es
    have "\<forall>x \<in> set (es1 @ es). \<exists>r' \<in> set (r # rs). discountInput t sel c r' = Inr (fst x)"
      by auto
    ultimately show ?thesis by blast
  qed
qed

lemma process_pending_requests:
  assumes found: "discountSet_findUnique sid db = Some s"
      and fetch: "getDiscount gw g (set_masterDiscountId s) = (Inr body, g1)"
      and tpl: "data_discountNode_discount body = Some (BasicDiscount tpl)"
      and run: "process_pending (logged gw) sid db (g, []) = (res, db', (g', trace))"
  shows "\<forall>x \<in> set trace. \<exists>r. discountInput tpl (buildItemSelection tpl) (buildCustomerContext tpl) r
                                  = Inr (fst x)"
proof (cases "discount_findMany sid PENDING BATCH_SIZE db = []")
  case True
  with found run have "trace = []" by (simp add: process_pending_def)
  then show ?thesis by simp
next
  case False
  let ?claimed = "discount_findMany sid PENDING BATCH_SIZE db"
  obtain e db1 g2 trace1 n where
    loop: "process_loop (logged gw) tpl (buildItemSelection tpl) (buildCustomerContext tpl) ?claimed
             (db, (g1, []), 0) = (e, db1, (g2, trace1), n)"
    by (metis surj_pair)
  from found False logged_getDiscount [OF fetch, of "[]"] tpl loop run have "trace = trace1"
    by (cases e) (simp_all add: process_pending_def Let_def)
  with process_loop_requests [OF loop] show ?thesis by auto
qed

lemma discountInput_fields:
  assumes "percentage (cg_value (customerGets tpl)) = Some p" and "p \<noteq> 0"
  shows "\<exists>inp. discountInput tpl sel c r = Inr inp
           \<and> in_code inp = code r \<and> in_value inp = Value_percentage p \<and> in_items inp = sel
           \<and> in_usageLimit inp = usageLimit tpl
           \<and> in_appliesOncePerCustomer inp = appliesOncePerCustomer tpl"
  using assms by (simp add: discountInput_def valueInput_def)

lemma ex_db_set:
  "discountSet_findUnique 1 ex_db
     = Some \<lparr>set_ident = 1, set_name = ''Spring'', set_shop = ''s'', set_masterDiscountId = ''gid://m''\<rparr>"
  by (simp add: discountSet_findUnique_def ex_db_def)

lemma ex_gateway_fetch:
  "getDiscount ex_gateway () i
     = (Inr \<lparr>body_errors = None, body_data = Some (Some (Some (BasicDiscount ex_template)))\<rparr>, ())"
  by (simp add: ex_gateway_def)

lemma ex_body_template:
  "data_discountNode_discount
     \<lparr>body_errors = None, body_data = Some (Some (Some (BasicDiscount ex_template)))\<rparr>
   = Some (BasicDiscount ex_template)"
  by (simp add: data_discountNode_discount_def)

subsection \<open>Updates of a PENDING row\<close>

lemma update_pending_row_invariant:
  assumes pk: "primary_key db" and inv: "status_invariant db"
      and row: "discount_findUnique i db = Some d" and pending: "status d = PENDING"
      and f: "\<And>x. resolution x (f x)"
      and upd: "discount_update i f db = Inr db'"
  shows "status_invariant db'"
proof -
  from row have d: "ident d = i" "d \<in> set (discounts db)"
    unfolding discount_findUnique_def by (auto dest: find_ident)
  then have "i \<in> ident ` set (discounts db)" by auto
  with upd have db': "db' = db\<lparr>discounts := map (\<lambda>x. if ident x = i then f x else x) (discounts db)\<rparr>"
    by (simp add: discount_update_def)
  have "row_resolved x (if ident x = i then f x else x)" if x: "x \<in> set (discounts db)" for x
  proof (cases "ident x = i")
    case True
    with pk x d have "x = d" by (auto intro: primary_key_unique)
    with True pending f show ?thesis by (simp add: row_resolved_def)
  next
    case False
    then show ?thesis by (simp add: row_resolved_def)
  qed
  then have "list_all2 row_resolved (discounts db) (discounts db')"
    unfolding db' by (simp add: list_all2_map2 list_all2_same)
  with inv show ?thesis
    unfolding status_invariant_def by (rule rows_resolved_ok [rotated])
qed

lemma mark_failed_invariant:
  assumes "primary_key db" and "status_invariant db"
      and "discount_findUnique i db = Some d" and "status d = PENDING"
      and "mark_failed i m db = Inr db'"
  shows "status_invariant db'"
proof (rule update_pending_row_invariant [OF assms(1-4)])
  show "resolution x (x\<lparr>status := FAILED, errorMessage := Some m\<rparr>)" for x
    unfolding resolution_def by blast
  from assms(5) show "discount_update i (\<lambda>x. x\<lparr>status := FAILED, errorMessage := Some m\<rparr>) db = Inr db'"
    by (simp add: mark_failed_def)
qed

lemma mark_created_invariant:
  assumes "primary_key db" and "status_invariant db"
      and "discount_findUnique i db = Some d" and "status d = PENDING"
      and "mark_created i rid db = Inr db'"
  shows "status_invariant db'"
proof (rule update_pending_row_invariant [OF assms(1-4)])
  show "resolution x (x\<lparr>status := CREATED, shopifyId := Some rid\<rparr>)" for x
    unfolding resolution_def by blast
  from assms(5) show "discount_update i (\<lambda>x. x\<lparr>status := CREATED, shopifyId := Some rid\<rparr>) db = Inr db'"
    by (simp add: mark_created_def)
qed

lemma ex_db_mixed_primary_key: "primary_key ex_db_mixed"
  by (simp add: primary_key_def ex_db_mixed_def ex_row_def)

lemma ex_db_mixed_set:
  "discountSet_findUnique 1 ex_db_mixed
     = Some \<lparr>set_ident = 1, set_name = ''Spring'', set_shop = ''s'', set_masterDiscountId = ''gid://m''\<rparr>"
  by (simp add: discountSet_findUnique_def ex_db_mixed_def)

lemma ex_gateway_mixed_fetch:
  "getDiscount ex_gateway_mixed n i
     = (Inr \<lparr>body_errors = None, body_data = Some (Some (Some (BasicDiscount ex_template)))\<rparr>, n)"
  by (simp add: ex_gateway_mixed_def)

lemma ex_mixed_run:
  "map status (discounts (fst (snd (process_pending (logged ex_gateway_mixed) 1 ex_db_mixed (0, [])))))
     = [FAILED, FAILED, CREATED]
   \<and> map errorMessage (discounts (fst (snd (process_pending (logged ex_gateway_mixed) 1 ex_db_mixed (0, [])))))
     = [Some ''code: taken'', Some ''network down'', None]
   \<and> map in_code (requests_of (process_pending (logged ex_gateway_mixed) 1 ex_db_mixed (0, [])))
     = [''DUPLICATE1'', ''BOOM'', ''OK1'']"
  by code_simp

lemma ex_null_run:
  "process_pending ex_gateway_null 1 ex_db_mixed ()
     = (Inl ''Cannot read properties of null (reading message)'', ex_db_mixed, ())"
  by code_simp

section \<open>The claims\<close>

subsection \<open>Usage limit and once-per-customer\<close>

text \<open>
  Claim C1. The claim is that every creation request carries usage limit 1 and once-per-customer true,
  whatever the master template says. The request built by \<^verbatim>\<open>process_pending\<close> copies both
  fields from the template: for a template with usage limit 100 and once-per-customer false
  the request sent for the pending item carries 100 and false.
\<close>

theorem usage_limit_copied_from_template:
  "usageLimit ex_template = Some 100
   \<and> appliesOncePerCustomer ex_template = False
   \<and> map in_usageLimit (requests_of (process_pending (logged ex_gateway) 1 ex_db ((), []))) = [Some 100]
   \<and> map in_appliesOncePerCustomer (requests_of (process_pending (logged ex_gateway) 1 ex_db ((), [])))
       = [False]"
  using ex_logged_requests by (simp add: ex_template_def)

subsection \<open>The status invariant\<close>

text \<open>
  Claim C2. On a table with distinct row keys, each action that writes to the store keeps the
  status invariant of every row: the bulk insert of \<^verbatim>\<open>create_discounts\<close>, the per-item
  updates of \<^verbatim>\<open>process_pending\<close> and the bulk reset of \<^verbatim>\<open>retry_failed\<close>. The two
  per-item updates (status CREATED with the remote id, status FAILED with the error message)
  keep it on their own whenever the row they are applied to is PENDING, which is how the
  handler applies them.
\<close>

theorem store_operations_preserve_status_invariant:
  assumes "primary_key db" and "status_invariant db"
  shows "status_invariant (fst (snd (create_discounts gw sh mid nm codes db g)))
       \<and> status_invariant (fst (snd (process_pending gw sid db g)))
       \<and> status_invariant (snd (retry_failed sid db))
       \<and> (\<forall>i d rid db'. discount_findUnique i db = Some d \<and> status d = PENDING
              \<and> mark_created i rid db = Inr db' \<longrightarrow> status_invariant db')
       \<and> (\<forall>i d m db'. discount_findUnique i db = Some d \<and> status d = PENDING
              \<and> mark_failed i m db = Inr db' \<longrightarrow> status_invariant db')"
proof (intro conjI allI impI)
  show "status_invariant (fst (snd (create_discounts gw sh mid nm codes db g)))"
    using create_discounts_invariant [OF assms(2), of gw sh mid nm codes g]
    by (metis prod.collapse)
  show "status_invariant (fst (snd (process_pending gw sid db g)))"
    using process_pending_invariant [OF assms, of gw sid g]
    by (metis prod.collapse)
  show "status_invariant (snd (retry_failed sid db))"
    using assms(2) by (rule retry_failed_invariant)
next
  fix i d rid db'
  assume "discount_findUnique i db = Some d \<and> status d = PENDING \<and> mark_created i rid db = Inr db'"
  then show "status_invariant db'"
    using mark_created_invariant [OF assms, of i d rid db'] by blast
next
  fix i d m db'
  assume "discount_findUnique i db = Some d \<and> status d = PENDING \<and> mark_failed i m db = Inr db'"
  then show "status_invariant db'"
    using mark_failed_invariant [OF assms, of i d m db'] by blast
qed

theorem store_operations_preserve_status_invariant_witness:
  "primary_key ex_db \<and> status_invariant ex_db
   \<and> status_invariant (fst (snd (create_discounts ex_gateway ''s'' ''7'' ''Winter'' [''X'', ''Y''] ex_db ())))
   \<and> status_invariant (fst (snd (process_pending ex_gateway 1 ex_db ())))
   \<and> status_invariant (snd (retry_failed 1 ex_db))"
  using store_operations_preserve_status_invariant [OF ex_db_primary_key ex_db_status_invariant,
          where gw = ex_gateway and sh = "''s''" and mid = "''7''" and nm = "''Winter''"
            and codes = "[''X'', ''Y'']" and g = "()" and sid = 1]
        ex_db_primary_key ex_db_status_invariant
  by simp

subsection \<open>Items are handled one by one\<close>

text \<open>
  Claim C3, as stated, fails for an error thrown with an empty message: the claim has the item
  marked FAILED with the error's message, and the handler stores the text
  \<open>Unknown error\<close> instead of the empty message (the fallback written in the \<^verbatim>\<open>catch\<close>
  block).
\<close>

theorem thrown_error_without_message_counterexample:
  "map_option errorMessage
       (discount_findUnique 2 (fst (snd (process_pending ex_gateway_silent 1 ex_db ()))))
     = Some (Some ''Unknown error'')
   \<and> map_option errorMessage
       (discount_findUnique 2 (fst (snd (process_pending ex_gateway_silent 1 ex_db ()))))
     \<noteq> Some (Some silent_error)"
  unfolding ex_silent_run silent_error_def by simp

text \<open>
  Claim C3 (amended). In one \<^verbatim>\<open>process_pending\<close> call on a table with distinct row keys,
  against a remote service whose mutation never throws \<^verbatim>\<open>null\<close> or \<^verbatim>\<open>undefined\<close>, every
  claimed record is handled, in order, and its row ends as its own attempt decides. When a
  request can be built from the template, one request is sent per claimed record and the row
  becomes FAILED with the joined field errors when the answer carries user errors, CREATED
  with the returned remote id when it carries a node and no user errors, FAILED with the
  error's message when the call throws, where an empty message is replaced by
  \<open>Unknown error\<close>. When no request can be built (the type error raised on the template's
  value), no request is sent and every claimed row becomes FAILED with that error's message.
  In both cases the call succeeds: no item's failure stops the items after it. Nothing is
  stated for a mutation that throws \<^verbatim>\<open>null\<close> or \<^verbatim>\<open>undefined\<close>.
\<close>

theorem items_handled_independently:
  assumes pk: "primary_key db"
      and found: "discountSet_findUnique sid db = Some s"
      and fetch: "getDiscount gw g (set_masterDiscountId s) = (Inr body, g1)"
      and tpl: "data_discountNode_discount body = Some (BasicDiscount tpl)"
      and nonull: "\<And>g0 inp. fst (discountCodeBasicCreate gw g0 inp) \<noteq> Inl Nullish"
  shows "\<exists>resp db' g' trace.
           process_pending (logged gw) sid db (g, []) = (Inr resp, db', (g', trace))
           \<and> (case valueInput (cg_value (customerGets tpl)) of
                 Inr v \<Rightarrow>
                   length trace = length (discount_findMany sid PENDING BATCH_SIZE db)
                   \<and> (\<forall>i < length (discount_findMany sid PENDING BATCH_SIZE db).
                         discountInput tpl (buildItemSelection tpl) (buildCustomerContext tpl)
                             (discount_findMany sid PENDING BATCH_SIZE db ! i) = Inr (fst (trace ! i))
                         \<and> discount_findUnique (ident (discount_findMany sid PENDING BATCH_SIZE db ! i)) db'
                             = Some (claimed_outcome (snd (trace ! i))
                                       (discount_findMany sid PENDING BATCH_SIZE db ! i)))
               | Inl m \<Rightarrow>
                   trace = []
                   \<and> (\<forall>i < length (discount_findMany sid PENDING BATCH_SIZE db).
                         discount_findUnique (ident (discount_findMany sid PENDING BATCH_SIZE db ! i)) db'
                           = Some (claimed_outcome (Inl (Thrown m))
                                     (discount_findMany sid PENDING BATCH_SIZE db ! i))))"
proof (cases "discount_findMany sid PENDING BATCH_SIZE db = []")
  case True
  with found have "\<exists>resp. process_pending (logged gw) sid db (g, []) = (Inr resp, db, (g, []))"
    by (simp add: process_pending_def)
  then obtain resp where "process_pending (logged gw) sid db (g, []) = (Inr resp, db, (g, []))" ..
  with True show ?thesis
    by (intro exI [where x = resp] exI [where x = db] exI [where x = g] exI [where x = "[]"])
       (simp split: sum.splits)
next
  case False
  let ?claimed = "discount_findMany sid PENDING BATCH_SIZE db"
  have dist: "distinct (map ident ?claimed)" using pk by (rule findMany_distinct)
  have rows: "\<forall>r \<in> set ?claimed. discount_findUnique (ident r) db = Some r"
    using pk by (rule claimed_rows_current)
  show ?thesis
  proof (cases "valueInput (cg_value (customerGets tpl))")
    case (Inr v)
    from process_loop_logged [OF dist rows Inr nonull,
           of "buildItemSelection tpl" "buildCustomerContext tpl" g1 "[]" 0]
    obtain db' g' es where
      loop: "process_loop (logged gw) tpl (buildItemSelection tpl) (buildCustomerContext tpl) ?claimed
               (db, (g1, []), 0) = (None, db', (g', [] @ es), 0 + length ?claimed)"
      and len: "length es = length ?claimed"
      and each: "\<forall>i < length ?claimed.
                   discountInput tpl (buildItemSelection tpl) (buildCustomerContext tpl) (?claimed ! i)
                       = Inr (fst (es ! i))
                   \<and> discount_findUnique (ident (?claimed ! i)) db'
                       = Some (claimed_outcome (snd (es ! i)) (?claimed ! i))"
      by (elim exE conjE) (rule that)
    have "\<exists>resp. process_pending (logged gw) sid db (g, []) = (Inr resp, db', (g', es))"
      using found False logged_getDiscount [OF fetch, of "[]"] tpl loop
      by (simp add: process_pending_def Let_def)
    then obtain resp where "process_pending (logged gw) sid db (g, []) = (Inr resp, db', (g', es))" ..
    with len each Inr show ?thesis
      by (intro exI [where x = resp] exI [where x = db'] exI [where x = g'] exI [where x = es]) simp
  next
    case (Inl m)
    from process_loop_unbuilt [OF dist rows Inl,
           of "logged gw" "buildItemSelection tpl" "buildCustomerContext tpl" "(g1, [])" 0]
    obtain db' where
      loop: "process_loop (logged gw) tpl (buildItemSelection tpl) (buildCustomerContext tpl) ?claimed
               (db, (g1, []), 0) = (None, db', (g1, []), 0 + length ?claimed)"
      and each: "\<forall>r \<in> set ?claimed.
                   discount_findUnique (ident r) db' = Some (claimed_outcome (Inl (Thrown m)) r)"
      by (elim exE conjE) (rule that)
    have "\<exists>resp. process_pending (logged gw) sid db (g, []) = (Inr resp, db', (g1, []))"
      using found False logged_getDiscount [OF fetch, of "[]"] tpl loop
      by (simp add: process_pending_def Let_def)
    then obtain resp where "process_pending (logged gw) sid db (g, []) = (Inr resp, db', (g1, []))" ..
    with each Inl show ?thesis
      by (intro exI [where x = resp] exI [where x = db'] exI [where x = g1] exI [where x = "[]"]) simp
  qed
qed

theorem items_handled_independently_witness:
  "map status (discounts (fst (snd (process_pending (logged ex_gateway_mixed) 1 ex_db_mixed (0, [])))))
     = [FAILED, FAILED, CREATED]
   \<and> map errorMessage (discounts (fst (snd (process_pending (logged ex_gateway_mixed) 1 ex_db_mixed (0, [])))))
     = [Some ''code: taken'', Some ''network down'', None]
   \<and> map in_code (requests_of (process_pending (logged ex_gateway_mixed) 1 ex_db_mixed (0, [])))
     = [''DUPLICATE1'', ''BOOM'', ''OK1'']
   \<and> (\<exists>resp db' g' trace.
     process_pending (logged ex_gateway_mixed) 1 ex_db_mixed (0, []) = (Inr resp, db', (g', trace))
     \<and> length trace = length (discount_findMany 1 PENDING BATCH_SIZE ex_db_mixed)
     \<and> (\<forall>i < length (discount_findMany 1 PENDING BATCH_SIZE ex_db_mixed).
           discountInput ex_template (buildItemSelection ex_template) (buildCustomerContext ex_template)
               (discount_findMany 1 PENDING BATCH_SIZE ex_db_mixed ! i) = Inr (fst (trace ! i))
           \<and> discount_findUnique (ident (discount_findMany 1 PENDING BATCH_SIZE ex_db_mixed ! i)) db'
               = Some (claimed_outcome (snd (trace ! i))
                         (discount_findMany 1 PENDING BATCH_SIZE ex_db_mixed ! i))))"
proof -
  have v: "valueInput (cg_value (customerGets ex_template)) = Inr (Value_percentage 10)"
    by (simp add: valueInput_def ex_template_def)
  have nonull: "fst (discountCodeBasicCreate ex_gateway_mixed g0 inp) \<noteq> Inl Nullish" for g0 inp
    by (simp add: ex_gateway_mixed_def)
  from items_handled_independently
         [OF ex_db_mixed_primary_key ex_db_mixed_set ex_gateway_mixed_fetch ex_body_template nonull, of 0]
  have "\<exists>resp db' g' trace.
     process_pending (logged ex_gateway_mixed) 1 ex_db_mixed (0, []) = (Inr resp, db', (g', trace))
     \<and> length trace = length (discount_findMany 1 PENDING BATCH_SIZE ex_db_mixed)
     \<and> (\<forall>i < length (discount_findMany 1 PENDING BATCH_SIZE ex_db_mixed).
           discountInput ex_template (buildItemSelection ex_template) (buildCustomerContext ex_template)
               (discount_findMany 1 PENDING BATCH_SIZE ex_db_mixed ! i) = Inr (fst (trace ! i))
           \<and> discount_findUnique (ident (discount_findMany 1 PENDING BATCH_SIZE ex_db_mixed ! i)) db'
               = Some (claimed_outcome (snd (trace ! i))
                         (discount_findMany 1 PENDING BATCH_SIZE ex_db_mixed ! i)))"
    unfolding v sum.case .
  with ex_mixed_run show ?thesis by (intro conjI) (elim conjE, assumption)+
qed

subsection \<open>Template failure during processing\<close>

text \<open>
  Claim C4. If \<^verbatim>\<open>process_pending\<close> has claimed at least one PENDING item and the template fetch
  throws or finds no discount, the call returns one error and the database is unchanged, so
  no item changes its status or error message.
\<close>

theorem process_pending_template_failure:
  assumes "discountSet_findUnique sid db = Some s"
      and "discount_findMany sid PENDING BATCH_SIZE db \<noteq> []"
      and "getDiscount gw g (set_masterDiscountId s) = (r, g1)"
      and "template_fetch_failed r"
  shows "\<exists>msg. process_pending gw sid db g = (Inl msg, db, g1)"
  using assms unfolding process_pending_def template_fetch_failed_def
  by (auto simp: Let_def split: sum.splits option.splits)

theorem process_pending_template_failure_witness:
  "discount_findMany 1 PENDING BATCH_SIZE ex_db \<noteq> []
   \<and> (\<exists>msg. process_pending ex_gateway_missing 1 ex_db () = (Inl msg, ex_db, ()))"
  using process_pending_template_failure
          [of 1 ex_db "\<lparr>set_ident = 1, set_name = ''Spring'', set_shop = ''s'', set_masterDiscountId = ''gid://m''\<rparr>"
              ex_gateway_missing "()" "Inr \<lparr>body_errors = None, body_data = Some None\<rparr>" "()"]
  by (simp add: ex_gateway_missing_def template_fetch_failed_def data_discountNode_discount_def
        discountSet_findUnique_def discount_findMany_def ex_db_def ex_row_def in_set_with_status_def
        BATCH_SIZE_def)

subsection \<open>Twelve codes in batches of five\<close>

text \<open>
  Claim C5. For a set with twelve PENDING rows, three \<^verbatim>\<open>process_pending\<close> calls are needed: the
  first two process five items each and return \<open>complete = False\<close>, the third processes two
  and returns \<open>complete = True\<close>. The template is available at every call and the mutation
  answers or throws an error (it never throws \<^verbatim>\<open>null\<close> or \<^verbatim>\<open>undefined\<close>, which would end
  a call early); the scenario's items need not succeed. In every successful call
  \<open>complete\<close> holds exactly when the reported remaining count is 0, and that count is the
  number of PENDING rows of the set in the resulting table.
\<close>

theorem twelve_codes_three_calls:
  assumes pk: "primary_key db"
      and found: "discountSet_findUnique sid db = Some s"
      and avail: "\<forall>g. \<exists>body g1 tpl. getDiscount gw g (set_masterDiscountId s) = (Inr body, g1)
                     \<and> data_discountNode_discount body = Some (BasicDiscount tpl)"
      and nonull: "\<And>g0 inp. fst (discountCodeBasicCreate gw g0 inp) \<noteq> Inl Nullish"
      and twelve: "discount_count sid PENDING db = 12"
  shows "(\<exists>r1 db1 g1 r2 db2 g2 r3 db3 g3.
            process_pending gw sid db g = (Inr r1, db1, g1)
            \<and> processed r1 = 5 \<and> remaining r1 = 7 \<and> \<not> complete r1
            \<and> process_pending gw sid db1 g1 = (Inr r2, db2, g2)
            \<and> processed r2 = 5 \<and> remaining r2 = 2 \<and> \<not> complete r2
            \<and> process_pending gw sid db2 g2 = (Inr r3, db3, g3)
            \<and> processed r3 = 2 \<and> remaining r3 = 0 \<and> complete r3)
       \<and> (\<forall>dbx gx resp dbx' gx'.
            process_pending gw sid dbx gx = (Inr resp, dbx', gx')
            \<longrightarrow> complete resp = (remaining resp = 0)
                \<and> remaining resp = discount_count sid PENDING dbx')"
proof (rule conjI)
  from twelve have "0 < discount_count sid PENDING db" by simp
  from process_pending_progress [OF pk found avail nonull this, of g]
  obtain r1 db1 g1 where
    a1: "process_pending gw sid db g = (Inr r1, db1, g1)
         \<and> processed r1 = min BATCH_SIZE (discount_count sid PENDING db)
         \<and> remaining r1 = discount_count sid PENDING db - BATCH_SIZE
         \<and> complete r1 = (remaining r1 = 0)
         \<and> discount_count sid PENDING db1 = discount_count sid PENDING db - BATCH_SIZE
         \<and> primary_key db1
         \<and> discountSet_findUnique sid db1 = Some s"
    by (elim exE) (rule that)
  from a1 have pk1: "primary_key db1" and f1: "discountSet_findUnique sid db1 = Some s"
    by simp_all
  from a1 twelve have n1: "discount_count sid PENDING db1 = 7"
    by (simp add: BATCH_SIZE_def)
  from a1 twelve have c1: "process_pending gw sid db g = (Inr r1, db1, g1)"
        "processed r1 = 5" "remaining r1 = 7" "\<not> complete r1"
    by (simp_all add: BATCH_SIZE_def)
  from n1 have "0 < discount_count sid PENDING db1" by simp
  from process_pending_progress [OF pk1 f1 avail nonull this, of g1]
  obtain r2 db2 g2 where
    a2: "process_pending gw sid db1 g1 = (Inr r2, db2, g2)
         \<and> processed r2 = min BATCH_SIZE (discount_count sid PENDING db1)
         \<and> remaining r2 = discount_count sid PENDING db1 - BATCH_SIZE
         \<and> complete r2 = (remaining r2 = 0)
         \<and> discount_count sid PENDING db2 = discount_count sid PENDING db1 - BATCH_SIZE
         \<and> primary_key db2
         \<and> discountSet_findUnique sid db2 = Some s"
    by (elim exE) (rule that)
  from a2 have pk2: "primary_key db2" and f2: "discountSet_findUnique sid db2 = Some s"
    by simp_all
  from a2 n1 have n2: "discount_count sid PENDING db2 = 2"
    by (simp add: BATCH_SIZE_def)
  from a2 n1 have c2: "process_pending gw sid db1 g1 = (Inr r2, db2, g2)"
        "processed r2 = 5" "remaining r2 = 2" "\<not> complete r2"
    by (simp_all add: BATCH_SIZE_def)
  from n2 have "0 < discount_count sid PENDING db2" by simp
  from process_pending_progress [OF pk2 f2 avail nonull this, of g2]
  obtain r3 db3 g3 where
    a3: "process_pending gw sid db2 g2 = (Inr r3, db3, g3)
         \<and> processed r3 = min BATCH_SIZE (discount_count sid PENDING db2)
         \<and> remaining r3 = discount_count sid PENDING db2 - BATCH_SIZE
         \<and> complete r3 = (remaining r3 = 0)
         \<and> discount_count sid PENDING db3 = discount_count sid PENDING db2 - BATCH_SIZE
         \<and> primary_key db3
         \<and> discountSet_findUnique sid db3 = Some s"
    by (elim exE) (rule that)
  from a3 n2 have c3: "process_pending gw sid db2 g2 = (Inr r3, db3, g3)"
        "processed r3 = 2" "remaining r3 = 0" "complete r3"
    by (simp_all add: BATCH_SIZE_def)
  from c1 c2 c3
  show "\<exists>r1 db1 g1 r2 db2 g2 r3 db3 g3.
            process_pending gw sid db g = (Inr r1, db1, g1)
            \<and> processed r1 = 5 \<and> remaining r1 = 7 \<and> \<not> complete r1
            \<and> process_pending gw sid db1 g1 = (Inr r2, db2, g2)
            \<and> processed r2 = 5 \<and> remaining r2 = 2 \<and> \<not> complete r2
            \<and> process_pending gw sid db2 g2 = (Inr r3, db3, g3)
            \<and> processed r3 = 2 \<and> remaining r3 = 0 \<and> complete r3"
    by (intro exI conjI)
next
  show "\<forall>dbx gx resp dbx' gx'.
            process_pending gw sid dbx gx = (Inr resp, dbx', gx')
            \<longrightarrow> complete resp = (remaining resp = 0)
                \<and> remaining resp = discount_count sid PENDING dbx'"
    by (intro allI impI) (rule process_pending_complete_iff)
qed

theorem twelve_codes_three_calls_witness:
  "discount_count 1 PENDING ex_submitted = 12
   \<and> (\<exists>r1 db1 g1 r2 db2 g2 r3 db3 g3.
            process_pending ex_gateway 1 ex_submitted () = (Inr r1, db1, g1)
            \<and> processed r1 = 5 \<and> remaining r1 = 7 \<and> \<not> complete r1
            \<and> process_pending ex_gateway 1 db1 g1 = (Inr r2, db2, g2)
            \<and> processed r2 = 5 \<and> remaining r2 = 2 \<and> \<not> complete r2
            \<and> process_pending ex_gateway 1 db2 g2 = (Inr r3, db3, g3)
            \<and> processed r3 = 2 \<and> remaining r3 = 0 \<and> complete r3)"
  using twelve_codes_three_calls [OF ex_submitted_primary_key ex_submitted_set ex_gateway_available
          ex_gateway_never_null ex_submitted_count, of "()"] ex_submitted_count
  by (intro conjI) (assumption, erule conjunct1)

subsection \<open>Retrying failed items\<close>

text \<open>
  Claim C6. \<^verbatim>\<open>retry_failed\<close> on a set turns exactly the FAILED rows of that set into PENDING rows
  with a null error message; every other row (CREATED or PENDING rows of the set, rows of
  other sets) and the table of sets are unchanged.
\<close>

theorem retry_failed_frame:
  assumes "retry_failed sid db = (resp, db')"
  shows "discountSets db' = discountSets db \<and> nextId db' = nextId db
       \<and> length (discounts db') = length (discounts db)
       \<and> (\<forall>i < length (discounts db).
            discounts db' ! i =
              (if discountSetId (discounts db ! i) = Some sid \<and> status (discounts db ! i) = FAILED
               then (discounts db ! i)\<lparr>status := PENDING, errorMessage := None\<rparr>
               else discounts db ! i))"
proof -
  have db': "db' = discount_updateMany (in_set_with_status sid FAILED)
       (\<lambda>d. d\<lparr>status := PENDING, errorMessage := None\<rparr>) db"
    using assms retry_failed_db [of sid db] by simp
  show ?thesis
    unfolding db' discount_updateMany_def in_set_with_status_def by simp
qed

theorem retry_failed_frame_witness:
  "discounts (snd (retry_failed 1 ex_db)) ! 1 = (discounts ex_db ! 1)\<lparr>status := PENDING, errorMessage := None\<rparr>
   \<and> discounts (snd (retry_failed 1 ex_db)) ! 3 = discounts ex_db ! 3"
  using retry_failed_frame [of 1 ex_db "fst (retry_failed 1 ex_db)" "snd (retry_failed 1 ex_db)"]
  by (simp add: ex_db_def ex_row_def)

subsection \<open>Settled items are left alone\<close>

text \<open>
  Claim C7. On a table with distinct row keys, a row that is CREATED or FAILED is identical
  after any sequence of \<^verbatim>\<open>process_pending\<close> calls, for any set ids and any behaviour of
  the remote service, and the next claim selects neither the row nor any record with its key.
\<close>

theorem settled_items_never_reprocessed:
  assumes "primary_key db" and "d \<in> set (discounts db)" and "status d \<noteq> PENDING"
      and "process_many gw sids db g = (db', g')"
  shows "discount_findUnique (ident d) db' = Some d
       \<and> d \<notin> set (discount_findMany sid PENDING n db')
       \<and> ident d \<notin> ident ` set (discount_findMany sid PENDING n db')"
proof -
  from process_many_keeps_settled [OF assms] have pk: "primary_key db'" and d: "d \<in> set (discounts db')"
    by simp_all
  from pk d have "discount_findUnique (ident d) db' = Some d"
    unfolding discount_findUnique_def primary_key_def by (rule find_unique_row)
  moreover from assms(3) have "d \<notin> set (discount_findMany sid PENDING n db')"
    using findMany_status by blast
  moreover have "ident d \<notin> ident ` set (discount_findMany sid PENDING n db')"
  proof
    assume "ident d \<in> ident ` set (discount_findMany sid PENDING n db')"
    then obtain c where c: "c \<in> set (discount_findMany sid PENDING n db')" "ident d = ident c"
      by auto
    with findMany_subset [of sid PENDING n db'] have "c \<in> set (discounts db')" by auto
    with pk d c have "d = c" by (auto intro: primary_key_unique)
    with c findMany_status [of c sid PENDING n db'] assms(3) show False by simp
  qed
  ultimately show ?thesis by simp
qed

theorem settled_items_never_reprocessed_witness:
  "discount_findUnique 4 (fst (process_many ex_gateway [1, 5, 1] ex_db ()))
     = Some ((ex_row 4 ''C'' 1)\<lparr>status := CREATED, shopifyId := Some ''n-C''\<rparr>)
   \<and> (ex_row 4 ''C'' 1)\<lparr>status := CREATED, shopifyId := Some ''n-C''\<rparr>
        \<notin> set (discount_findMany 1 PENDING BATCH_SIZE (fst (process_many ex_gateway [1, 5, 1] ex_db ())))"
proof -
  let ?d = "(ex_row 4 ''C'' 1)\<lparr>status := CREATED, shopifyId := Some ''n-C''\<rparr>"
  have d: "?d \<in> set (discounts ex_db)" by (simp add: ex_db_def)
  have s: "status ?d \<noteq> PENDING" by simp
  have i: "ident ?d = 4" by (simp add: ex_row_def)
  have r: "process_many ex_gateway [1, 5, 1] ex_db ()
             = (fst (process_many ex_gateway [1, 5, 1] ex_db ()), snd (process_many ex_gateway [1, 5, 1] ex_db ()))"
    by (rule surjective_pairing)
  from settled_items_never_reprocessed [OF ex_db_primary_key d s r, of 1 BATCH_SIZE] i
  show ?thesis by simp
qed

subsection \<open>Submission with an unresolvable template\<close>

text \<open>
  Claim C8. If the master template reference does not resolve at submission time (the query throws,
  reports errors, or finds no discount), \<^verbatim>\<open>create_discounts\<close> returns an error and the
  database is exactly what it was: no set row and no discount row is created.
\<close>

theorem create_discounts_unresolved_persists_nothing:
  assumes "getDiscount gw g (formatMasterDiscountId mid) = (r, g1)"
      and "template_unresolved r"
  shows "\<exists>msg. create_discounts gw sh mid nm codes db g = (Inl msg, db, g1)"
  using assms unfolding create_discounts_def template_unresolved_def data_discountNode_discount_def
  by (auto simp: Let_def split: sum.splits option.splits list.splits)

theorem create_discounts_unresolved_witness:
  "template_unresolved (fst (getDiscount ex_gateway_missing () (formatMasterDiscountId ''7'')))
   \<and> (\<exists>msg. create_discounts ex_gateway_missing ''s'' ''7'' ''Winter'' [''X''] ex_db () = (Inl msg, ex_db, ()))"
  using create_discounts_unresolved_persists_nothing
          [of ex_gateway_missing "()" "''7''" "Inr \<lparr>body_errors = None, body_data = Some None\<rparr>" "()"
              "''s''" "''Winter''" "[''X'']" ex_db]
  by (simp add: ex_gateway_missing_def template_unresolved_def data_discountNode_discount_def)

subsection \<open>Percentage and all-items templates\<close>

text \<open>
  Claim C9. The claim has every request for a template with percentage 10 and
  \<open>allItems = true\<close> carry the value \<^verbatim>\<open>{ percentage: 10 }\<close> and the item selection
  \<^verbatim>\<open>{ all: true }\<close>. The request sent by \<^verbatim>\<open>process_pending\<close> for such a template carries
  the percentage and selects all items, but the \<open>all\<close> field of its item selection is the
  string \<open>ALL\<close>, not the boolean \<open>true\<close>.
\<close>

theorem all_items_selection_sent_as_string:
  "percentage (cg_value (customerGets ex_template)) = Some 10
   \<and> allItems (cg_items (customerGets ex_template)) = Some True
   \<and> map in_value (requests_of (process_pending (logged ex_gateway) 1 ex_db ((), [])))
       = [Value_percentage 10]
   \<and> map in_items (requests_of (process_pending (logged ex_gateway) 1 ex_db ((), [])))
       = [Items_all (JString ''ALL'')]
   \<and> map in_items (requests_of (process_pending (logged ex_gateway) 1 ex_db ((), [])))
       \<noteq> [Items_all (JBool True)]"
  using ex_logged_requests by (simp add: ex_template_def)

text \<open>
  What the handler does for every template of that kind, whatever the record's code: the
  request built for a record carries the record's code, the value \<open>percentage 10\<close> and the
  all-items selection with the string \<open>ALL\<close> in its \<open>all\<close> field, and so does every request
  sent during a \<^verbatim>\<open>process_pending\<close> call.
\<close>

theorem percentage_and_all_items_replicated:
  assumes found: "discountSet_findUnique sid db = Some s"
      and fetch: "getDiscount gw g (set_masterDiscountId s) = (Inr body, g1)"
      and tpl: "data_discountNode_discount body = Some (BasicDiscount tpl)"
      and ten: "percentage (cg_value (customerGets tpl)) = Some 10"
      and allitems: "allItems (cg_items (customerGets tpl)) = Some True"
      and run: "process_pending (logged gw) sid db (g, []) = (res, db', (g', trace))"
  shows "(\<forall>r. \<exists>inp. discountInput tpl (buildItemSelection tpl) (buildCustomerContext tpl) r = Inr inp
              \<and> in_code inp = code r
              \<and> in_value inp = Value_percentage 10
              \<and> in_items inp = Items_all (JString ''ALL''))
       \<and> (\<forall>x \<in> set trace. in_value (fst x) = Value_percentage 10
                           \<and> in_items (fst x) = Items_all (JString ''ALL''))"
proof -
  have sel: "buildItemSelection tpl = Items_all (JString ''ALL'')"
    using allitems by (simp add: buildItemSelection_def)
  have built: "\<exists>inp. discountInput tpl (buildItemSelection tpl) (buildCustomerContext tpl) r = Inr inp
              \<and> in_code inp = code r
              \<and> in_value inp = Value_percentage 10
              \<and> in_items inp = Items_all (JString ''ALL'')" for r
    using discountInput_fields [OF ten, of "buildItemSelection tpl" "buildCustomerContext tpl" r] sel
    by auto
  have "in_value (fst x) = Value_percentage 10 \<and> in_items (fst x) = Items_all (JString ''ALL'')"
    if "x \<in> set trace" for x
  proof -
    from process_pending_requests [OF found fetch tpl run] that obtain r where
      "discountInput tpl (buildItemSelection tpl) (buildCustomerContext tpl) r = Inr (fst x)" by blast
    with built [of r] show ?thesis by auto
  qed
  with built show ?thesis by blast
qed

theorem percentage_and_all_items_replicated_witness:
  "percentage (cg_value (customerGets ex_template)) = Some 10
   \<and> allItems (cg_items (customerGets ex_template)) = Some True
   \<and> requests_of (process_pending (logged ex_gateway) 1 ex_db ((), [])) \<noteq> []
   \<and> list_all (\<lambda>inp. in_value inp = Value_percentage 10 \<and> in_items inp = Items_all (JString ''ALL''))
         (requests_of (process_pending (logged ex_gateway) 1 ex_db ((), [])))"
proof -
  have ten: "percentage (cg_value (customerGets ex_template)) = Some 10"
    by (simp add: ex_template_def)
  have allitems: "allItems (cg_items (customerGets ex_template)) = Some True"
    by (simp add: ex_template_def)
  obtain res db' g' trace where
    run: "process_pending (logged ex_gateway) 1 ex_db ((), []) = (res, db', (g', trace))"
    by (metis surj_pair)
  from percentage_and_all_items_replicated [OF ex_db_set ex_gateway_fetch ex_body_template ten allitems run]
  have "\<forall>x \<in> set trace. in_value (fst x) = Value_percentage 10
                           \<and> in_items (fst x) = Items_all (JString ''ALL'')" by (rule conjunct2)
  with run have "list_all (\<lambda>inp. in_value inp = Value_percentage 10 \<and> in_items inp = Items_all (JString ''ALL''))
         (requests_of (process_pending (logged ex_gateway) 1 ex_db ((), [])))"
    by (simp add: requests_of_def list_all_iff)
  moreover have "requests_of (process_pending (logged ex_gateway) 1 ex_db ((), [])) \<noteq> []"
    unfolding ex_logged_requests by simp
  ultimately show ?thesis using ten allitems by simp
qed

subsection \<open>The processed count\<close>

text \<open>
  Claim C10. A \<^verbatim>\<open>process_pending\<close> call that does not fail as a whole reports as processed the
  number of items it claimed: an item marked FAILED counts like an item marked CREATED.
\<close>

theorem process_pending_processed_count:
  assumes "process_pending gw sid db g = (Inr resp, db', g')"
  shows "processed resp = length (discount_findMany sid PENDING BATCH_SIZE db)"
proof (cases "discountSet_findUnique sid db")
  case None
  with assms show ?thesis by (simp add: process_pending_def)
next
  case (Some s)
  show ?thesis
  proof (cases "discount_findMany sid PENDING BATCH_SIZE db = []")
    case True
    with assms Some show ?thesis by (auto simp add: process_pending_def)
  next
    case False
    obtain r g1 where f: "getDiscount gw g (set_masterDiscountId s) = (r, g1)"
      by (cases "getDiscount gw g (set_masterDiscountId s)")
    from assms Some False f obtain t where
      t: "r = Inr t"
      by (cases r) (auto simp add: process_pending_def)
    from assms Some False f t obtain tpl where
      tpl: "data_discountNode_discount t = Some (BasicDiscount tpl)"
      by (auto simp add: process_pending_def split: option.splits DiscountObject.splits)
    obtain e db1 g2 n where
      l: "process_loop gw tpl (buildItemSelection tpl) (buildCustomerContext tpl)
            (discount_findMany sid PENDING BATCH_SIZE db) (db, g1, 0) = (e, db1, g2, n)"
      by (metis prod_cases4)
    from assms Some False f t tpl l have e: "e = None"
      by (cases e) (auto simp add: process_pending_def)
    from assms Some False f t tpl l e have "processed resp = n"
      by (auto simp add: process_pending_def Let_def)
    moreover from l e have "n = 0 + length (discount_findMany sid PENDING BATCH_SIZE db)"
      by (auto dest: process_loop_count)
    ultimately show ?thesis by simp
  qed
qed

theorem process_pending_processed_count_witness:
  "\<exists>resp db' g'. process_pending ex_gateway 1 ex_db () = (Inr resp, db', g')
     \<and> processed resp = length (discount_findMany 1 PENDING BATCH_SIZE ex_db)"
proof -
  from ex_run obtain resp db' where run: "process_pending ex_gateway 1 ex_db () = (Inr resp, db', ())"
    by blast
  from process_pending_processed_count [OF run] run show ?thesis by blast
qed

end
